(* ===== verification/Prelude.thy ===== *)
theory Prelude
  imports Main "HOL-Library.Word"
begin

text \<open>
  Shared vocabulary of the development: the machine integer types of the C code, the ways a
  C function can stop the process instead of returning, sequencing of fallible code, C strings
  and fixed-size character buffers, the \<open>ffs\<close> of the C library, and decimal printing as
  \<open>printf ("%u")\<close> does it. The lemmas are collected in \<open>res_simps\<close> (sequencing),
  \<open>cstr_simps\<close> (buffers) and \<open>word_nat_simps\<close> (words read as naturals).
\<close>

unbundle bit_operations_syntax

named_theorems res_simps \<open>sequencing of fallible operations\<close>
named_theorems cstr_simps \<open>C strings and character buffers\<close>
named_theorems word_nat_simps \<open>machine words read as naturals\<close>

section \<open>Machine integers\<close>

type_synonym u8 = "8 word"
type_synonym u16 = "16 word"
type_synonym u32 = "32 word"

lemma unat_drop_bit_div [word_nat_simps]: "unat (drop_bit n (w :: 'a::len word)) = unat w div 2 ^ n"
  by (simp add: unat_drop_bit_eq drop_bit_eq_div [of n "unat w"])

lemma unat_and_31 [word_nat_simps]: "unat ((w :: u32) AND 0x1F) = unat w mod 32"
proof -
  have "w AND 0x1F = take_bit 5 w"
    by (simp add: take_bit_eq_mask mask_eq_exp_minus_1)
  then have "unat (w AND 0x1F) = take_bit 5 (unat w)"
    by (simp only: unsigned_take_bit_eq)
  then show ?thesis
    by (simp add: take_bit_eq_mod)
qed

lemma and_31_eq_0 [word_nat_simps]: "((w :: u32) AND 0x1F = 0) = (unat w mod 32 = 0)"
  by (metis unat_and_31 unat_eq_zero)

lemma div_ceil_32:
  "(n + 31) div 32 = (if n mod 32 = 0 then n div 32 else Suc (n div 32))" for n :: nat
proof -
  have "(n mod 32 + 31) div 32 = 1" if "0 < n mod 32"
    using that mod_less_divisor [of 32 n] by (intro div_nat_eqI) simp_all
  then show ?thesis by (simp add: div_add1_eq [of n 31])
qed

text \<open>
  \<open>sqlite3_bind_int\<close> takes a (signed) \<open>int\<close>, \<open>sqlite3_column_int\<close> returns one and the
  code casts it back: the round trip through \<open>sint\<close> is the identity.
\<close>

lemma word_of_sint_id [simp]: "word_of_int (sint (w :: 'a::len word)) = w"
  by simp

lemma sint_eq_iff [simp]: "(sint (a :: 'a::len word) = sint b) = (a = b)"
  by (metis word_of_sint_id)

lemma sint_u32_small:
  "0 \<le> x \<Longrightarrow> x < 2 ^ 31 \<Longrightarrow> sint (word_of_int x :: u32) = x"
  by (simp add: sint_sbintrunc' signed_take_bit_int_eq_self)

section \<open>Stopping without returning\<close>

text \<open>
  What a C function can do other than return: dereference a null pointer (this includes
  handing a null object to a library function that takes an object), access memory outside
  an object, use an object after its last reference was dropped, or call \<open>exit\<close> with
  \<open>EXIT_FAILURE\<close>. A fallible operation is a sum, \<open>Inl\<close> for the stop.
\<close>

datatype halt = Null_pointer | Out_of_bounds | Use_after_free | Exit_failure

type_synonym 'a res = "halt + 'a"

fun bindR :: "'a res \<Rightarrow> ('a \<Rightarrow> 'b res) \<Rightarrow> 'b res" where
  "bindR (Inl h) f = Inl h"
| "bindR (Inr x) f = f x"

lemma bindR_Inr_iff [res_simps]: "(bindR m f = Inr y) = (\<exists>x. m = Inr x \<and> f x = Inr y)"
  by (cases m) auto

lemma bindR_Inl_iff [res_simps]:
  "(bindR m f = Inl h) = (m = Inl h \<or> (\<exists>x. m = Inr x \<and> f x = Inl h))"
  by (cases m) auto

lemma bindR_assoc: "bindR (bindR m f) g = bindR m (\<lambda>x. bindR (f x) g)"
  by (cases m) auto

lemma bindR_cong [fundef_cong]:
  "m = m' \<Longrightarrow> (\<And>x. m' = Inr x \<Longrightarrow> f x = f' x) \<Longrightarrow> bindR m f = bindR m' f'"
  by (cases m') auto

text \<open>A loop that runs a fallible body over the elements it is given, in order.\<close>

fun foldR :: "('a \<Rightarrow> 's \<Rightarrow> 's res) \<Rightarrow> 'a list \<Rightarrow> 's \<Rightarrow> 's res" where
  "foldR f [] s = Inr s"
| "foldR f (x # xs) s = bindR (f x s) (foldR f xs)"

lemma foldR_append: "foldR f (xs @ ys) s = bindR (foldR f xs s) (foldR f ys)"
  by (induction xs arbitrary: s) (auto simp: bindR_assoc intro!: bindR_cong)

lemma foldR_invariant:
  assumes "foldR f xs s = Inr s'" and "P s"
    and "\<And>x t t'. x \<in> set xs \<Longrightarrow> P t \<Longrightarrow> f x t = Inr t' \<Longrightarrow> P t'"
  shows "P s'"
  using assms by (induction xs arbitrary: s) (auto simp: res_simps)

lemma foldR_total:
  assumes "P s" and "\<And>x t. x \<in> set xs \<Longrightarrow> P t \<Longrightarrow> \<exists>t'. f x t = Inr t' \<and> P t'"
  shows "\<exists>s'. foldR f xs s = Inr s' \<and> P s'"
  using assms by (induction xs arbitrary: s) fastforce+

section \<open>C strings and buffers\<close>

text \<open>
  A \<open>char\<close> array is a list of characters of its declared length; the string it holds ends
  before the first NUL. \<open>memcpy_buf\<close> is \<open>memcpy (dst, s, strlen (s))\<close> (and \<open>strncpy\<close>
  with that bound): it writes no terminator and leaves the rest of the buffer as it was.
  \<open>c_string\<close> reads a buffer as a C string: without a NUL the read runs out of it.
\<close>

abbreviation NUL :: char where "NUL \<equiv> CHR 0x00"

definition zero_buf :: "nat \<Rightarrow> string" where
  "zero_buf n = replicate n NUL"

definition cstr :: "string \<Rightarrow> string" where
  "cstr b = takeWhile (\<lambda>c. c \<noteq> NUL) b"

definition memcpy_buf :: "string \<Rightarrow> string \<Rightarrow> string res" where
  "memcpy_buf dst s =
     (if length s \<le> length dst then Inr (s @ drop (length s) dst) else Inl Out_of_bounds)"

definition c_string :: "string \<Rightarrow> string res" where
  "c_string b = (if NUL \<in> set b then Inr (cstr b) else Inl Out_of_bounds)"

lemma length_zero_buf [cstr_simps]: "length (zero_buf n) = n"
  by (simp add: zero_buf_def)

lemma cstr_no_nul [cstr_simps]: "NUL \<notin> set (cstr b)"
  by (auto simp: cstr_def dest: set_takeWhileD)

lemma cstr_idem [cstr_simps]: "NUL \<notin> set s \<Longrightarrow> cstr s = s"
  by (auto simp: cstr_def takeWhile_eq_all_conv)

lemma cstr_zero_buf [cstr_simps]: "cstr (zero_buf n) = []"
  by (cases n) (simp_all add: cstr_def zero_buf_def)

lemma cstr_append_nul [cstr_simps]: "NUL \<notin> set s \<Longrightarrow> cstr (s @ NUL # r) = s"
  by (induction s) (auto simp: cstr_def)

lemma cstr_append: "NUL \<notin> set s \<Longrightarrow> cstr (s @ r) = s @ cstr r"
  by (induction s) (auto simp: cstr_def)

lemma cstr_length_less: "NUL \<in> set b \<Longrightarrow> length (cstr b) < length b"
  by (induction b) (auto simp: cstr_def)

lemma memcpy_zero_buf [cstr_simps]:
  "length s \<le> n \<Longrightarrow> memcpy_buf (zero_buf n) s = Inr (s @ zero_buf (n - length s))"
  by (simp add: memcpy_buf_def zero_buf_def)

lemma cstr_padded [cstr_simps]: "NUL \<notin> set s \<Longrightarrow> cstr (s @ zero_buf n) = s"
  by (cases n) (auto simp: zero_buf_def cstr_append_nul cstr_idem)

lemma memcpy_buf_length [cstr_simps]: "memcpy_buf d s = Inr d' \<Longrightarrow> length d' = length d"
  by (auto simp: memcpy_buf_def split: if_splits)

text \<open>
  A buffer that ends in NUL still does after a copy of a shorter string: this is what keeps
  every string field of the program terminated.
\<close>

definition terminated :: "nat \<Rightarrow> string \<Rightarrow> bool" where
  "terminated n b \<longleftrightarrow> length b = n \<and> 0 < n \<and> b ! (n - 1) = NUL"

lemma terminated_zero_buf: "0 < n \<Longrightarrow> terminated n (zero_buf n)"
  by (simp add: terminated_def zero_buf_def)

lemma terminated_memcpy:
  assumes "terminated n d" and "length s < n"
  shows "\<exists>d'. memcpy_buf d s = Inr d' \<and> terminated n d'"
  using assms by (auto simp: memcpy_buf_def terminated_def nth_append)

lemma terminated_nul: "terminated n b \<Longrightarrow> NUL \<in> set b"
  unfolding terminated_def by (metis diff_less nth_mem zero_less_one)

lemma terminated_cstr_length: "terminated n b \<Longrightarrow> length (cstr b) < n"
  using cstr_length_less terminated_nul terminated_def by metis

section \<open>Find first set\<close>

text \<open>
  \<open>ffs\<close> of \<^verbatim>\<open>strings.h\<close>: one plus the index of the least significant set bit, 0 for 0.
\<close>

definition ffs :: "u32 \<Rightarrow> nat" where
  "ffs w = (case find (bit w) [0..<32] of None \<Rightarrow> 0 | Some i \<Rightarrow> Suc i)"

lemma ffs_nonzero:
  assumes "w \<noteq> 0"
  obtains i where "ffs w = Suc i" and "i < 32" and "bit w i" and "\<And>j. j < i \<Longrightarrow> \<not> bit w j"
proof -
  have "\<exists>k < 32. bit w k"
  proof (rule ccontr)
    assume "\<not> ?thesis"
    then have "w = 0" by (auto intro!: bit_word_eqI)
    with assms show False by simp
  qed
  then obtain i where i: "find (bit w) [0..<32] = Some i"
    by (cases "find (bit w) [0..<32]") (auto simp: find_None_iff)
  then have "i < 32" "bit w i" "\<forall>j < i. \<not> bit w j"
    by (auto simp: find_Some_iff)
  with i that show ?thesis by (simp add: ffs_def)
qed

lemma ffs_0 [simp]: "ffs 0 = 0"
  by (simp add: ffs_def find_None_iff split: option.splits)

section \<open>Decimal numbers\<close>

fun dec :: "nat \<Rightarrow> string" where
  "dec n = (if n < 10 then [char_of (48 + n)] else dec (n div 10) @ [char_of (48 + n mod 10)])"

declare dec.simps [simp del]

definition undec :: "string \<Rightarrow> nat" where
  "undec ds = foldl (\<lambda>a c. 10 * a + (of_char c - 48)) 0 ds"

lemma undec_dec [simp]: "undec (dec n) = n"
proof (induction n rule: dec.induct)
  case (1 n)
  then show ?case
    by (subst dec.simps) (auto simp: undec_def)
qed

lemma dec_inject [simp]: "(dec m = dec n) = (m = n)"
  by (metis undec_dec)

lemma dec_digits: "c \<in> set (dec n) \<Longrightarrow> 48 \<le> (of_char c :: nat) \<and> (of_char c :: nat) < 58"
proof (induction n rule: dec.induct)
  case (1 n)
  show ?case
  proof (cases "n < 10")
    case True
    with "1.prems" show ?thesis by (subst (asm) dec.simps) auto
  next
    case False
    with "1.prems" have "c \<in> set (dec (n div 10)) \<or> c = char_of (48 + n mod 10)"
      by (subst (asm) dec.simps) auto
    with "1.IH" False show ?thesis by auto
  qed
qed

lemma dec_special: "NUL \<notin> set (dec n)" "CHR ''-'' \<notin> set (dec n)"
  by (auto dest!: dec_digits)

lemma length_dec_3: "n < 1000 \<Longrightarrow> length (dec n) \<le> 3"
  by (simp add: dec.simps [of n] dec.simps [of "n div 10"] dec.simps [of "n div 10 div 10"])

end
