(* ===== verification/Effects.thy ===== *)
theory Effects
  imports Prelude
begin

text \<open>
  What the two programs ask of the world outside: the libuv, socket, netlink and standard
  output operations they perform, as values appended to a trace. libuv, libmnl and the kernel
  are not part of the repository: the model records what the code asks of them and takes
  what they answer as arguments, so no behaviour of theirs is assumed. Logging is left out.
\<close>

text \<open>The timers and sockets of both programs. Each timer has one callback in the code.\<close>

datatype uv_timer =
    Unix_socket_timeout   \<comment> \<open>\<open>unix_socket_timeout_cb\<close>\<close>
  | Request_timeout       \<comment> \<open>\<open>client_request_timeout_handle_cb\<close>\<close>
  | Netlink_timeout       \<comment> \<open>\<open>table_allocator_client_netlink_timeout_cb\<close>\<close>
  | Dead_leases_timeout   \<comment> \<open>\<open>dead_leases_timeout_cb\<close>\<close>

datatype uv_handle = Unix_socket | Netlink_socket

text \<open>A routing rule message as \<open>table_allocator_client_netlink_modify_rule\<close> builds it.\<close>

datatype nl_attr =
    FRA_PRIORITY u32
  | FRA_TABLE u32
  | FRA_addr4 nat u32          \<comment> \<open>attribute type (\<open>FRA_SRC\<close> or \<open>FRA_DST\<close>) and address\<close>
  | FRA_addr6 nat "u32 list"
  | FRA_IFNAME string

record nl_rule =
  nlmsg_type :: u16
  nlmsg_flags :: u16
  rtm_family :: u8
  rtm_src_len :: u8
  rtm_dst_len :: u8
  rtm_table :: u8
  rtm_attrs :: "nl_attr list"

datatype effect =
    Udp_init uv_handle
  | Udp_open uv_handle int
  | Udp_recv_start uv_handle
  | Udp_recv_stop uv_handle
  | Uv_close uv_handle
  | Timer_init uv_timer
  | Timer_start uv_timer nat nat      \<comment> \<open>timeout and repeat, in milliseconds\<close>
  | Timer_stop uv_timer
  | Timer_set_repeat uv_timer nat
  | Timer_again uv_timer
  | Timer_close uv_timer
  | Loop_stop                         \<comment> \<open>\<open>uv_stop\<close>\<close>
  | Close_fd int
  | Sendto string string int          \<comment> \<open>abstract socket name, text of the datagram, answer of the call\<close>
  | Print_table u32                   \<comment> \<open>\<open>printf ("%u")\<close> to standard output\<close>
  | Daemonize
  | Rule_request nl_rule
  | Mnl_close

text \<open>The datagrams that have left: destination and text of the calls of \<open>sendto\<close> that did not fail.\<close>

fun datagram_of :: "effect \<Rightarrow> (string \<times> string) list" where
  "datagram_of (Sendto dest data retval) = (if retval < 0 then [] else [(dest, data)])"
| "datagram_of _ = []"

definition sent :: "effect list \<Rightarrow> (string \<times> string) list" where
  "sent es = concat (map datagram_of es)"

text \<open>
  Whether libuv delivers what arrives at the Unix socket: from a \<open>uv_udp_recv_start\<close> that
  succeeded until the handle is stopped, closed or initialised anew.
\<close>

fun receiving_after :: "effect \<Rightarrow> bool \<Rightarrow> bool" where
  "receiving_after (Udp_recv_start Unix_socket) b = True"
| "receiving_after (Udp_recv_stop Unix_socket) b = False"
| "receiving_after (Uv_close Unix_socket) b = False"
| "receiving_after (Udp_init Unix_socket) b = False"
| "receiving_after _ b = b"

definition receiving :: "effect list \<Rightarrow> bool" where
  "receiving es = fold receiving_after es False"

lemma receiving_snoc [simp]: "receiving (es @ [e]) = receiving_after e (receiving es)"
  by (simp add: receiving_def)

lemma receiving_append: "receiving (es @ ds) = fold receiving_after ds (receiving es)"
  by (simp add: receiving_def)

lemma sent_simps [simp]:
  "sent [] = []" "sent (e # es) = datagram_of e @ sent es" "sent (es @ ds) = sent es @ sent ds"
  by (simp_all add: sent_def)

end
