(* ===== verification/Server_State.thy ===== *)
theory Server_State
  imports Effects
begin

text \<open>
  The server's data: \<open>struct tas_client_req\<close> and \<open>struct tas_ctx\<close> of
  \<^verbatim>\<open>table_allocator_server.h\<close>, and a row of the \<open>RtTables\<close> relation that
  \<open>CREATE_SQL\<close> of \<^verbatim>\<open>table_allocator_server_sqlite.h\<close> declares. The database behind
  \<open>db_handle\<close> and the prepared statements is the list of rows in scan order; the libuv
  handles are the trace of the operations on them.
\<close>

definition AF_UNSPEC :: u8 where "AF_UNSPEC = 0"
definition AF_INET :: u8 where "AF_INET = 2"
definition AF_INET6 :: u8 where "AF_INET6 = 10"

lemmas af_defs = AF_UNSPEC_def AF_INET_def AF_INET6_def

definition IFNAMSIZ :: nat where "IFNAMSIZ = 16"
definition INET6_ADDRSTRLEN :: nat where "INET6_ADDRSTRLEN = 46"
definition TA_SHARED_MAX_TAG_SIZE :: nat where "TA_SHARED_MAX_TAG_SIZE = 128"
definition TA_SHARED_MAX_ADDR_SIZE :: nat where "TA_SHARED_MAX_ADDR_SIZE = 106"
definition TA_SHARED_MAX_JSON_LEN :: nat where "TA_SHARED_MAX_JSON_LEN = 254"
definition CLIENT_REQ_BUFFER_SIZE :: nat where "CLIENT_REQ_BUFFER_SIZE = 512"
definition MAX_DB_PATH_LEN :: nat where "MAX_DB_PATH_LEN = 256"

lemmas size_defs = IFNAMSIZ_def INET6_ADDRSTRLEN_def TA_SHARED_MAX_TAG_SIZE_def
  TA_SHARED_MAX_ADDR_SIZE_def TA_SHARED_MAX_JSON_LEN_def CLIENT_REQ_BUFFER_SIZE_def
  MAX_DB_PATH_LEN_def

record tas_client_req =
  req_ifname :: string
  req_tag :: string
  req_address :: string
  req_ver :: u8
  req_cmd :: u8
  req_family :: u8

text \<open>\<open>memset (req, 0, sizeof (struct tas_client_req))\<close>.\<close>

definition zero_req :: tas_client_req where
  "zero_req = \<lparr>req_ifname = zero_buf IFNAMSIZ, req_tag = zero_buf TA_SHARED_MAX_TAG_SIZE,
     req_address = zero_buf INET6_ADDRSTRLEN, req_ver = 0, req_cmd = 0, req_family = 0\<rparr>"

text \<open>
  A row of \<open>RtTables\<close>. The integer columns hold what \<open>sqlite3_bind_int\<close> was given, a
  signed 32-bit value.
\<close>

record rt_row =
  RtTable :: int
  AddrFamily :: int
  Ifname :: string
  Addr :: string
  LeaseExpires :: int
  Tag :: "string option"

record tas_ctx =
  req :: tas_client_req
  tables_inet :: "u32 list option"
  tables_inet6 :: "u32 list option"
  tables_unspec :: "u32 list option"
  num_table_elements :: u32
  num_tables :: u32
  table_offset :: u32
  socket_path :: string
  db_path :: string
  client_req_buffer :: string
  table_timeout :: u16
  use_syslog :: u8
  rt_rows :: "rt_row list"
  trace :: "effect list"

text \<open>\<open>calloc (sizeof (struct tas_ctx), 1)\<close> over the rows a database file already holds.\<close>

definition calloc_ctx :: "rt_row list \<Rightarrow> tas_ctx" where
  "calloc_ctx rows = \<lparr>req = zero_req, tables_inet = None, tables_inet6 = None,
     tables_unspec = None, num_table_elements = 0, num_tables = 0, table_offset = 0,
     socket_path = zero_buf TA_SHARED_MAX_ADDR_SIZE, db_path = zero_buf MAX_DB_PATH_LEN,
     client_req_buffer = zero_buf CLIENT_REQ_BUFFER_SIZE, table_timeout = 0, use_syslog = 0,
     rt_rows = rows, trace = []\<rparr>"

definition emit :: "effect list \<Rightarrow> tas_ctx \<Rightarrow> tas_ctx" where
  "emit es ctx = ctx\<lparr>trace := trace ctx @ es\<rparr>"

lemma emit_simps [simp]:
  "tables_inet (emit es ctx) = tables_inet ctx" "tables_inet6 (emit es ctx) = tables_inet6 ctx"
  "tables_unspec (emit es ctx) = tables_unspec ctx"
  "num_table_elements (emit es ctx) = num_table_elements ctx"
  "num_tables (emit es ctx) = num_tables ctx" "table_offset (emit es ctx) = table_offset ctx"
  "rt_rows (emit es ctx) = rt_rows ctx" "trace (emit es ctx) = trace ctx @ es"
  "table_timeout (emit es ctx) = table_timeout ctx" "socket_path (emit es ctx) = socket_path ctx"
  "client_req_buffer (emit es ctx) = client_req_buffer ctx" "req (emit es ctx) = req ctx"
  by (simp_all add: emit_def)

end
