(* ===== verification/Table_Map.thy ===== *)
theory Table_Map
  imports Server_State
begin

text \<open>
  The in-memory table map: \<open>allocate_table\<close>, \<open>release_table\<close>, \<open>set_table\<close> and
  \<open>is_table_free\<close> of \<^verbatim>\<open>table_allocator_server_clients.c\<close>, and \<open>populate_table_map\<close>
  and \<open>configure_rt_tables\<close> of \<^verbatim>\<open>table_allocator_server.c\<close>. One array of 32-bit words
  per address family; a set bit is a free table. The code toggles bits with XOR; the
  abstraction is the set of free identifiers, and the interface \<open>id_pool\<close> says what
  the four operations do to that set.
\<close>

section \<open>Array access\<close>

text \<open>An array is a pointer that may be null; every index is checked against its length.\<close>

fun table_read :: "u32 list option \<Rightarrow> nat \<Rightarrow> u32 res" where
  "table_read None i = Inl Null_pointer"
| "table_read (Some ws) i = (if i < length ws then Inr (ws ! i) else Inl Out_of_bounds)"

fun table_xor :: "u32 list option \<Rightarrow> nat \<Rightarrow> u32 \<Rightarrow> u32 list option res" where
  "table_xor None i m = Inl Null_pointer"
| "table_xor (Some ws) i m =
     (if i < length ws then Inr (Some (ws[i := ws ! i XOR m])) else Inl Out_of_bounds)"

text \<open>The \<open>if (addr_family == AF_INET) \<dots> else if \<dots> else\<close> chain each operation opens with.\<close>

definition family_map :: "tas_ctx \<Rightarrow> u8 \<Rightarrow> u32 list option" where
  "family_map ctx fam =
     (if fam = AF_INET then tables_inet ctx
      else if fam = AF_INET6 then tables_inet6 ctx
      else tables_unspec ctx)"

definition update_family_map :: "tas_ctx \<Rightarrow> u8 \<Rightarrow> u32 list option \<Rightarrow> tas_ctx" where
  "update_family_map ctx fam t =
     (if fam = AF_INET then ctx\<lparr>tables_inet := t\<rparr>
      else if fam = AF_INET6 then ctx\<lparr>tables_inet6 := t\<rparr>
      else ctx\<lparr>tables_unspec := t\<rparr>)"

section \<open>Operations\<close>

text \<open>
  \<open>allocate_table\<close>: scan for the first word with a set bit, clear the bit \<open>ffs\<close> finds,
  and return its position counted from 1. \<open>1 << 31\<close> is read as the 32-bit mask it is on
  the compilers used. A result above \<open>num_tables\<close> is turned into 0, with the bit cleared.
\<close>

function allocate_loop ::
  "u32 list option \<Rightarrow> nat \<Rightarrow> nat \<Rightarrow> (u32 \<times> u32 list option) res" where
  "allocate_loop t i n =
     (if i < n then
        bindR (table_read t i) (\<lambda>w.
          if w = 0 then allocate_loop t (Suc i) n
          else bindR (table_xor t i (push_bit (ffs w - 1) 1)) (\<lambda>t'.
            Inr (of_nat (ffs w) + of_nat (i * 4 * 8), t')))
      else Inr (0, t))"
  by pat_completeness auto
termination
  by (relation "measure (\<lambda>(t, i, n). n - i)") auto

declare allocate_loop.simps [simp del]

definition allocate_table :: "tas_ctx \<Rightarrow> u8 \<Rightarrow> (u32 \<times> tas_ctx) res" where
  "allocate_table ctx addr_family =
     bindR (allocate_loop (family_map ctx addr_family) 0 (unat (num_table_elements ctx)))
       (\<lambda>(rt_table, t).
          let ctx' = update_family_map ctx addr_family t in
          if rt_table > num_tables ctx then Inr (0, ctx') else Inr (rt_table, ctx'))"

definition element_index :: "tas_ctx \<Rightarrow> u32 \<Rightarrow> u32" where
  "element_index ctx rt_table = drop_bit 5 (rt_table - table_offset ctx)"

definition element_bit :: "tas_ctx \<Rightarrow> u32 \<Rightarrow> u32" where
  "element_bit ctx rt_table = (rt_table - table_offset ctx) AND 0x1F"

definition release_table :: "tas_ctx \<Rightarrow> u8 \<Rightarrow> u32 \<Rightarrow> tas_ctx res" where
  "release_table ctx addr_family rt_table =
     bindR (table_xor (family_map ctx addr_family) (unat (element_index ctx rt_table))
              (push_bit (unat (element_bit ctx rt_table)) 1))
       (\<lambda>t. Inr (update_family_map ctx addr_family t))"

definition set_table :: "tas_ctx \<Rightarrow> u8 \<Rightarrow> u32 \<Rightarrow> tas_ctx res" where
  "set_table ctx addr_family rt_table =
     (if element_index ctx rt_table \<ge> num_table_elements ctx then Inr ctx
      else bindR (table_xor (family_map ctx addr_family) (unat (element_index ctx rt_table))
                    (push_bit (unat (element_bit ctx rt_table)) 1))
             (\<lambda>t. Inr (update_family_map ctx addr_family t)))"

definition is_table_free :: "tas_ctx \<Rightarrow> u8 \<Rightarrow> u32 \<Rightarrow> bool res" where
  "is_table_free ctx addr_family rt_table =
     (if element_index ctx rt_table \<ge> num_table_elements ctx then Inr False
      else bindR (table_read (family_map ctx addr_family) (unat (element_index ctx rt_table)))
             (\<lambda>w. Inr (w AND push_bit (unat (element_bit ctx rt_table)) 1 \<noteq> 0)))"

section \<open>Configuration\<close>

text \<open>
  \<open>populate_table_map\<close> and \<open>configure_rt_tables\<close>. The outcome of each \<open>calloc\<close> is an
  argument, by the mask bit of the family; the result \<open>None\<close> is the code's \<open>return 0\<close>.
\<close>

definition ADDR_FAMILY_INET :: u8 where "ADDR_FAMILY_INET = 1"
definition ADDR_FAMILY_INET6 :: u8 where "ADDR_FAMILY_INET6 = 2"
definition ADDR_FAMILY_UNSPEC :: u8 where "ADDR_FAMILY_UNSPEC = 4"

lemmas mask_defs = ADDR_FAMILY_INET_def ADDR_FAMILY_INET6_def ADDR_FAMILY_UNSPEC_def

definition populate_table_map :: "u32 list \<Rightarrow> nat \<Rightarrow> u32 list res" where
  "populate_table_map table_map num_elems =
     foldR (\<lambda>i t. if i < length t then Inr (t[i := 0xFFFFFFFF]) else Inl Out_of_bounds)
       [0..<num_elems] table_map"

definition num_elements_for :: "u32 \<Rightarrow> u32" where
  "num_elements_for n =
     (if n < 32 then 0
      else if n AND 0x1F \<noteq> 0 then drop_bit 5 n + 1
      else drop_bit 5 n)"

definition new_table :: "(u8 \<Rightarrow> bool) \<Rightarrow> u8 \<Rightarrow> u8 \<Rightarrow> u32 \<Rightarrow> u32 list option \<Rightarrow> u32 list option option res"
  where
  "new_table calloc_ok m addr_families n old =
     (if addr_families AND m \<noteq> 0 then
        if \<not> calloc_ok m then Inr None
        else bindR (populate_table_map (replicate (unat n) 0) (unat n)) (\<lambda>t. Inr (Some (Some t)))
      else Inr (Some old))"

definition configure_rt_tables :: "(u8 \<Rightarrow> bool) \<Rightarrow> tas_ctx \<Rightarrow> u8 \<Rightarrow> tas_ctx option res" where
  "configure_rt_tables calloc_ok ctx addr_families =
     (let n = num_elements_for (num_tables ctx) in
      bindR (new_table calloc_ok ADDR_FAMILY_INET addr_families n (tables_inet ctx)) (\<lambda>r4.
      case r4 of None \<Rightarrow> Inr None | Some t4 \<Rightarrow>
      bindR (new_table calloc_ok ADDR_FAMILY_INET6 addr_families n (tables_inet6 ctx)) (\<lambda>r6.
      case r6 of None \<Rightarrow> Inr None | Some t6 \<Rightarrow>
      bindR (new_table calloc_ok ADDR_FAMILY_UNSPEC addr_families n (tables_unspec ctx)) (\<lambda>ru.
      case ru of None \<Rightarrow> Inr None | Some tu \<Rightarrow>
      Inr (Some (ctx\<lparr>tables_inet := t4, tables_inet6 := t6, tables_unspec := tu,
                     num_table_elements := n\<rparr>))))))"

section \<open>The set of free identifiers\<close>

text \<open>
  Identifier \<open>i\<close> (table \<open>table_offset + i\<close>) is bit \<open>i mod 32\<close> of word \<open>i div 32\<close>.
\<close>

definition id_free :: "u32 list \<Rightarrow> nat \<Rightarrow> bool" where
  "id_free ws i \<longleftrightarrow> i div 32 < length ws \<and> bit (ws ! (i div 32)) (i mod 32)"

definition free_ids :: "u32 list \<Rightarrow> nat set" where
  "free_ids ws = {i. id_free ws i}"

definition flip_id :: "u32 list \<Rightarrow> nat \<Rightarrow> u32 list" where
  "flip_id ws i = ws[i div 32 := ws ! (i div 32) XOR push_bit (i mod 32) 1]"

lemma length_flip_id [simp]: "length (flip_id ws i) = length ws"
  by (simp add: flip_id_def)

lemma id_free_less: "id_free ws i \<Longrightarrow> i < 32 * length ws"
  by (simp add: id_free_def) (metis div_less_iff_less_mult mult.commute zero_less_numeral)

lemma id_free_flip:
  assumes "i < 32 * length ws"
  shows "id_free (flip_id ws i) j = (if j = i then \<not> id_free ws i else id_free ws j)"
proof -
  have i: "i div 32 < length ws"
    using assms by (simp add: div_less_iff_less_mult mult.commute)
  show ?thesis
  proof (cases "j div 32 = i div 32")
    case True
    then have "(j = i) = (j mod 32 = i mod 32)"
      by (metis div_mult_mod_eq)
    with True i show ?thesis
      by (auto simp: id_free_def flip_id_def bit_simps)
  next
    case False
    with i show ?thesis
      by (auto simp: id_free_def flip_id_def)
  qed
qed

lemma allocate_loop_none:
  assumes "\<And>j. 32 * i \<le> j \<Longrightarrow> \<not> id_free ws j"
  shows "allocate_loop (Some ws) i (length ws) = Inr (0, Some ws)"
  using assms
proof (induction "length ws - i" arbitrary: i)
  case 0
  then show ?case by (simp add: allocate_loop.simps)
next
  case (Suc k)
  then have i: "i < length ws" by simp
  have "ws ! i = 0"
  proof (rule bit_word_eqI)
    fix n assume "n < LENGTH(32)"
    with Suc.prems [of "32 * i + n"] i show "bit (ws ! i) n = bit (0 :: u32) n"
      by (simp add: id_free_def)
  qed
  moreover have "allocate_loop (Some ws) (Suc i) (length ws) = Inr (0, Some ws)"
    using Suc.hyps(2) Suc.prems by (intro Suc.hyps(1)) auto
  ultimately show ?case
    using i by (subst allocate_loop.simps) simp
qed

lemma allocate_loop_first:
  assumes "id_free ws m" and "32 * i \<le> m" and "\<And>j. 32 * i \<le> j \<Longrightarrow> j < m \<Longrightarrow> \<not> id_free ws j"
  shows "allocate_loop (Some ws) i (length ws) = Inr (of_nat (Suc m), Some (flip_id ws m))"
  using assms
proof (induction "length ws - i" arbitrary: i)
  case 0
  then show ?case using id_free_less [of ws m] by auto
next
  case (Suc k)
  then have i: "i < length ws" by simp
  show ?case
  proof (cases "ws ! i = 0")
    case True
    have "m div 32 \<noteq> i"
      using Suc.prems(1) True by (auto simp: id_free_def)
    moreover have "i \<le> m div 32"
      using div_le_mono [OF Suc.prems(2), of 32] by simp
    ultimately have "32 * Suc i \<le> 32 * (m div 32)" by simp
    also have "\<dots> \<le> m" by simp
    finally have "32 * Suc i \<le> m" .
    then have "allocate_loop (Some ws) (Suc i) (length ws)
        = Inr (of_nat (Suc m), Some (flip_id ws m))"
      using Suc.hyps(2) Suc.prems by (intro Suc.hyps(1)) auto
    with True i show ?thesis by (subst allocate_loop.simps) simp
  next
    case False
    then obtain b where b: "ffs (ws ! i) = Suc b" "b < 32" "bit (ws ! i) b"
        "\<And>j. j < b \<Longrightarrow> \<not> bit (ws ! i) j"
      using ffs_nonzero by blast
    have "id_free ws (32 * i + b)"
      using b i by (simp add: id_free_def)
    moreover have "\<not> id_free ws j" if "32 * i \<le> j" "j < 32 * i + b" for j
    proof -
      from that obtain d where "j = 32 * i + d" "d < b"
        by (metis le_Suc_ex add_less_cancel_left)
      with b(2,4) show ?thesis by (simp add: id_free_def)
    qed
    ultimately have m: "m = 32 * i + b"
      using Suc.prems by (metis le_add1 linorder_neqE_nat)
    with b i False show ?thesis
      by (subst allocate_loop.simps) (simp add: flip_id_def algebra_simps)
  qed
qed

definition small_map :: "u32 list \<Rightarrow> bool" where
  "small_map ws \<longleftrightarrow> 32 * length ws < 2 ^ 32"

lemma finite_free_ids: "finite (free_ids ws)"
  by (rule finite_subset [of _ "{..<32 * length ws}"]) (auto simp: free_ids_def id_free_less)

lemma of_nat_Suc_id:
  "i < 32 * length ws \<Longrightarrow> small_map ws \<Longrightarrow> unat (of_nat (Suc i) :: u32) = Suc i"
  by (simp add: small_map_def unsigned_of_nat take_bit_eq_mod del: of_nat_Suc)

lemma allocate_loop_least:
  assumes "free_ids ws \<noteq> {}"
  shows "allocate_loop (Some ws) 0 (length ws)
    = Inr (of_nat (Suc (Min (free_ids ws))), Some (flip_id ws (Min (free_ids ws))))"
proof (rule allocate_loop_first)
  show "id_free ws (Min (free_ids ws))"
    using Min_in [OF finite_free_ids assms] by (simp add: free_ids_def)
next
  fix j assume "j < Min (free_ids ws)"
  then show "\<not> id_free ws j"
    using Min_le [OF finite_free_ids] by (metis free_ids_def leD mem_Collect_eq)
qed simp

section \<open>The operations on the context\<close>

text \<open>
  The geometry the configuration establishes: the arrays have \<open>num_table_elements\<close> words,
  as many as \<open>num_tables\<close> asks for, and the table numbers neither start at 0 nor wrap.
\<close>

definition map_sized :: "u32 \<Rightarrow> u32 list option \<Rightarrow> bool" where
  "map_sized n t = (case t of None \<Rightarrow> True | Some ws \<Rightarrow> length ws = unat n)"

definition geometry :: "tas_ctx \<Rightarrow> bool" where
  "geometry ctx \<longleftrightarrow>
     num_table_elements ctx = num_elements_for (num_tables ctx)
     \<and> map_sized (num_table_elements ctx) (tables_inet ctx)
     \<and> map_sized (num_table_elements ctx) (tables_inet6 ctx)
     \<and> map_sized (num_table_elements ctx) (tables_unspec ctx)
     \<and> 0 < table_offset ctx
     \<and> unat (table_offset ctx) + unat (num_tables ctx) < 2 ^ 32
     \<and> unat (num_tables ctx) \<le> 2 ^ 32 - 32"

definition table_id :: "tas_ctx \<Rightarrow> u32 \<Rightarrow> nat" where
  "table_id ctx rt_table = unat (rt_table - table_offset ctx)"

definition ctx_free :: "tas_ctx \<Rightarrow> u8 \<Rightarrow> nat \<Rightarrow> bool" where
  "ctx_free ctx fam i = (case family_map ctx fam of None \<Rightarrow> False | Some ws \<Rightarrow> id_free ws i)"

definition capacity :: "tas_ctx \<Rightarrow> nat" where
  "capacity ctx = 32 * unat (num_table_elements ctx)"

definition same_map :: "u8 \<Rightarrow> u8 \<Rightarrow> bool" where
  "same_map f g \<longleftrightarrow> f = g \<or> (f \<notin> {AF_INET, AF_INET6} \<and> g \<notin> {AF_INET, AF_INET6})"

lemma unat_num_elements_for:
  "unat (num_elements_for n) =
     (if unat n < 32 then 0 else (unat n + 31) div 32)"
proof (cases "n < 32 \<or> n AND 0x1F = 0")
  case True
  then show ?thesis
    by (auto simp: num_elements_for_def word_less_nat_alt word_nat_simps
        div_ceil_32)
next
  case False
  have "unat n < 2 ^ 32" using unsigned_less [of n] by simp
  then have "unat (drop_bit 5 n) + 1 < 2 ^ 32"
    by (simp add: word_nat_simps) 
  then have "unat (drop_bit 5 n + 1) = unat (drop_bit 5 n) + 1"
    by (simp add: unat_word_ariths)
  with False show ?thesis
    by (auto simp: num_elements_for_def word_less_nat_alt word_nat_simps div_ceil_32)
qed

lemma capacity_eq:
  "geometry ctx \<Longrightarrow> capacity ctx =
     (if unat (num_tables ctx) < 32 then 0 else 32 * ((unat (num_tables ctx) + 31) div 32))"
  by (simp add: geometry_def capacity_def unat_num_elements_for)

lemma capacity_less: "geometry ctx \<Longrightarrow> capacity ctx < 2 ^ 32"
proof -
  assume g: "geometry ctx"
  have "32 * ((n + 31) div 32) \<le> n + 31" for n :: nat by simp
  moreover have "unat (num_tables ctx) + 31 < 2 ^ 32" using g by (simp add: geometry_def)
  ultimately have "32 * ((unat (num_tables ctx) + 31) div 32) < 2 ^ 32"
    by (rule le_less_trans)
  then show ?thesis using g by (simp add: capacity_eq)
qed

lemma num_tables_capacity:
  "geometry ctx \<Longrightarrow> 32 \<le> unat (num_tables ctx) \<Longrightarrow> unat (num_tables ctx) \<le> capacity ctx"
  by (simp add: capacity_eq)

lemma geometry_family:
  assumes "geometry ctx" and "family_map ctx fam = Some ws"
  shows "length ws = unat (num_table_elements ctx)" and "32 * length ws = capacity ctx"
    and "small_map ws"
proof -
  show len: "length ws = unat (num_table_elements ctx)"
    using assms by (auto simp: geometry_def family_map_def map_sized_def split: if_splits)
  then show cap: "32 * length ws = capacity ctx" by (simp add: capacity_def)
  show "small_map ws" using capacity_less [OF assms(1)] by (simp add: small_map_def cap)
qed

lemma family_map_update [simp]:
  "family_map (update_family_map ctx f t) g = (if same_map f g then t else family_map ctx g)"
  by (auto simp: family_map_def update_family_map_def same_map_def af_defs)

lemma update_family_map_frame [simp]:
  "num_table_elements (update_family_map ctx f t) = num_table_elements ctx"
  "num_tables (update_family_map ctx f t) = num_tables ctx"
  "table_offset (update_family_map ctx f t) = table_offset ctx"
  "rt_rows (update_family_map ctx f t) = rt_rows ctx"
  "trace (update_family_map ctx f t) = trace ctx"
  "table_timeout (update_family_map ctx f t) = table_timeout ctx"
  "client_req_buffer (update_family_map ctx f t) = client_req_buffer ctx"
  "req (update_family_map ctx f t) = req ctx"
  by (simp_all add: update_family_map_def)

lemma table_id_update [simp]: "table_id (update_family_map ctx f t) = table_id ctx"
  by (simp add: table_id_def fun_eq_iff)

lemma capacity_update [simp]: "capacity (update_family_map ctx f t) = capacity ctx"
  by (simp add: capacity_def)

lemma geometry_update:
  "geometry ctx \<Longrightarrow> map_sized (num_table_elements ctx) t \<Longrightarrow> geometry (update_family_map ctx f t)"
  by (auto simp: geometry_def update_family_map_def)

lemma element_index_id: "unat (element_index ctx t) = table_id ctx t div 32"
  by (simp add: element_index_def table_id_def word_nat_simps)

lemma element_bit_id: "unat (element_bit ctx t) = table_id ctx t mod 32"
  by (simp add: element_bit_def table_id_def word_nat_simps)

lemma index_in_range:
  "(num_table_elements ctx \<le> element_index ctx t) = (capacity ctx \<le> table_id ctx t)"
  by (auto simp: word_le_nat_alt element_index_id capacity_def)

text \<open>
  Every operation, inside its range, is a toggle of one identifier of one family's map.
\<close>

definition toggle_id :: "tas_ctx \<Rightarrow> u8 \<Rightarrow> nat \<Rightarrow> tas_ctx" where
  "toggle_id ctx fam i =
     (case family_map ctx fam of
        None \<Rightarrow> ctx
      | Some ws \<Rightarrow> update_family_map ctx fam (Some (flip_id ws i)))"

lemma toggle_id_frame [simp]:
  "num_table_elements (toggle_id ctx f i) = num_table_elements ctx"
  "num_tables (toggle_id ctx f i) = num_tables ctx"
  "table_offset (toggle_id ctx f i) = table_offset ctx"
  "rt_rows (toggle_id ctx f i) = rt_rows ctx"
  "trace (toggle_id ctx f i) = trace ctx"
  "table_timeout (toggle_id ctx f i) = table_timeout ctx"
  "client_req_buffer (toggle_id ctx f i) = client_req_buffer ctx"
  "req (toggle_id ctx f i) = req ctx"
  "capacity (toggle_id ctx f i) = capacity ctx"
  "table_id (toggle_id ctx f i) = table_id ctx"
  by (simp_all add: toggle_id_def split: option.split)

lemma same_map_family: "same_map f g \<Longrightarrow> family_map ctx f = family_map ctx g"
  by (auto simp: same_map_def family_map_def)

lemma family_enabled_toggle [simp]:
  "(family_map (toggle_id ctx f i) g = None) = (family_map ctx g = None)"
  by (auto simp: toggle_id_def split: option.split dest: same_map_family [of f g ctx])

lemma geometry_toggle [simp]: "geometry ctx \<Longrightarrow> geometry (toggle_id ctx f i)"
  by (auto simp: toggle_id_def map_sized_def geometry_family(1)
      intro!: geometry_update split: option.split)

lemma same_map_free: "same_map f g \<Longrightarrow> ctx_free ctx f i = ctx_free ctx g i"
  by (simp add: ctx_free_def same_map_family)

lemma ctx_free_less: "geometry ctx \<Longrightarrow> ctx_free ctx f i \<Longrightarrow> i < capacity ctx"
  using geometry_family(2) id_free_less by (fastforce simp: ctx_free_def split: option.splits)

lemma ctx_free_toggle:
  assumes "geometry ctx" and "family_map ctx f \<noteq> None" and "i < capacity ctx"
  shows "ctx_free (toggle_id ctx f i) g j =
    (if same_map f g \<and> j = i then \<not> ctx_free ctx g i else ctx_free ctx g j)"
proof -
  from assms(2) obtain ws where ws: "family_map ctx f = Some ws" by blast
  with assms have "i < 32 * length ws" by (simp add: geometry_family(2))
  with ws show ?thesis
    by (cases "same_map f g")
      (simp_all add: ctx_free_def toggle_id_def id_free_flip flip: same_map_family)
qed

lemma update_family_map_same: "family_map ctx f = t \<Longrightarrow> update_family_map ctx f t = ctx"
  by (auto simp: family_map_def update_family_map_def)

lemma release_table_eq:
  assumes "geometry ctx" and "family_map ctx f \<noteq> None" and "table_id ctx t < capacity ctx"
  shows "release_table ctx f t = Inr (toggle_id ctx f (table_id ctx t))"
proof -
  from assms(2) obtain ws where ws: "family_map ctx f = Some ws" by blast
  with assms have "table_id ctx t div 32 < length ws"
    by (simp add: geometry_family(1) capacity_def div_less_iff_less_mult mult.commute)
  with ws show ?thesis
    by (simp add: release_table_def toggle_id_def element_index_id element_bit_id flip_id_def)
qed

lemma release_table_out_of_range:
  assumes "geometry ctx" and "family_map ctx f \<noteq> None" and "capacity ctx \<le> table_id ctx t"
  shows "release_table ctx f t = Inl Out_of_bounds"
proof -
  from assms(2) obtain ws where ws: "family_map ctx f = Some ws" by blast
  with assms have "\<not> table_id ctx t div 32 < length ws"
    by (simp add: geometry_family(1) capacity_def div_less_iff_less_mult mult.commute)
  with ws show ?thesis
    by (simp add: release_table_def element_index_id)
qed

lemma release_table_disabled:
  "family_map ctx f = None \<Longrightarrow> release_table ctx f t = Inl Null_pointer"
  by (simp add: release_table_def)

lemma set_table_eq:
  assumes "geometry ctx" and "family_map ctx f \<noteq> None"
  shows "set_table ctx f t =
    Inr (if table_id ctx t < capacity ctx then toggle_id ctx f (table_id ctx t) else ctx)"
  using release_table_eq [OF assms, of t]
  by (auto simp: set_table_def release_table_def index_in_range)

lemma is_table_free_eq:
  assumes "geometry ctx" and "family_map ctx f \<noteq> None"
  shows "is_table_free ctx f t = Inr (ctx_free ctx f (table_id ctx t))"
proof -
  from assms(2) obtain ws where ws: "family_map ctx f = Some ws" by blast
  have m: "(w AND 2 ^ n \<noteq> 0) = bit w n" for w :: u32 and n
    by (simp add: bit_iff_and_push_bit_not_eq_0)
  show ?thesis
  proof (cases "table_id ctx t < capacity ctx")
    case True
    with assms ws have "table_id ctx t div 32 < length ws"
      by (simp add: geometry_family(1) capacity_def div_less_iff_less_mult mult.commute)
    with True ws show ?thesis
      by (simp add: is_table_free_def index_in_range element_index_id element_bit_id m
          ctx_free_def id_free_def)
  next
    case False
    with assms show ?thesis
      using ctx_free_less by (auto simp: is_table_free_def index_in_range)
  qed
qed

lemma is_table_free_out_of_range:
  "capacity ctx \<le> table_id ctx t \<Longrightarrow> is_table_free ctx f t = Inr False"
  by (simp add: is_table_free_def index_in_range)

lemma allocate_table_eq:
  assumes "geometry ctx" and "family_map ctx f = Some ws"
  shows "allocate_table ctx f = Inr
    (if free_ids ws = {} then (0, ctx)
     else (if Min (free_ids ws) < unat (num_tables ctx) then of_nat (Suc (Min (free_ids ws))) else 0,
           toggle_id ctx f (Min (free_ids ws))))"
proof (cases "free_ids ws = {}")
  case True
  with assms show ?thesis
    using allocate_loop_none [of 0 ws]
    by (simp add: allocate_table_def geometry_family(1) [symmetric] free_ids_def
        update_family_map_same Let_def)
next
  case False
  then have "Min (free_ids ws) < 32 * length ws"
    using Min_in [OF finite_free_ids, of ws] by (auto simp: free_ids_def id_free_less)
  then have "unat (of_nat (Suc (Min (free_ids ws))) :: u32) = Suc (Min (free_ids ws))"
    using geometry_family(3) [OF assms] by (rule of_nat_Suc_id)
  then show ?thesis
    using False assms allocate_loop_least [OF False]
    by (auto simp: allocate_table_def geometry_family(1) [OF assms, symmetric] toggle_id_def
        Let_def word_less_nat_alt simp del: of_nat_Suc)
qed

lemma allocate_table_cases:
  assumes "geometry ctx" and "family_map ctx f \<noteq> None"
  obtains (none) ctx' where "allocate_table ctx f = Inr (0, ctx')"
      and "\<forall>i < unat (num_tables ctx). \<not> ctx_free ctx f i"
      and "ctx' = ctx \<or> (\<exists>i. unat (num_tables ctx) \<le> i \<and> i < capacity ctx
        \<and> ctx_free ctx f i \<and> ctx' = toggle_id ctx f i)"
    | (some) i where "allocate_table ctx f = Inr (of_nat (Suc i), toggle_id ctx f i)"
      and "i < unat (num_tables ctx)" and "i < capacity ctx" and "ctx_free ctx f i"
      and "\<forall>j < i. \<not> ctx_free ctx f j" and "unat (of_nat (Suc i) :: u32) = Suc i"
proof -
  from assms(2) obtain ws where ws: "family_map ctx f = Some ws" by blast
  note eq = allocate_table_eq [OF assms(1) ws]
  show thesis
  proof (cases "free_ids ws = {}")
    case True
    with ws have "\<forall>i < unat (num_tables ctx). \<not> ctx_free ctx f i"
      by (auto simp: ctx_free_def free_ids_def)
    with True eq show ?thesis by (intro none) auto
  next
    case False
    let ?m = "Min (free_ids ws)"
    have "?m \<in> free_ids ws" using Min_in [OF finite_free_ids False] .
    with ws have free: "ctx_free ctx f ?m" by (simp add: ctx_free_def free_ids_def)
    then have cap: "?m < capacity ctx" by (rule ctx_free_less [OF assms(1)])
    have least: "\<forall>j < ?m. \<not> ctx_free ctx f j"
    proof (intro allI impI)
      fix j assume "j < ?m"
      then have "j \<notin> free_ids ws" using Min_le [OF finite_free_ids, of j ws] by auto
      with ws show "\<not> ctx_free ctx f j" by (simp add: ctx_free_def free_ids_def)
    qed
    show ?thesis
    proof (cases "?m < unat (num_tables ctx)")
      case True
      have "unat (of_nat (Suc ?m) :: u32) = Suc ?m"
        using cap geometry_family [OF assms(1) ws] by (intro of_nat_Suc_id) auto
      with True False eq free cap least show ?thesis by (intro some [of ?m]) auto
    next
      case False
      then have "unat (num_tables ctx) \<le> ?m" by simp
      moreover from this least have "\<forall>i < unat (num_tables ctx). \<not> ctx_free ctx f i"
        by auto
      moreover have "allocate_table ctx f = Inr (0, toggle_id ctx f ?m)"
        using eq False \<open>free_ids ws \<noteq> {}\<close> by simp
      ultimately show ?thesis using cap free by (intro none) blast+
    qed
  qed
qed

lemma populate_loop:
  "k \<le> length t \<Longrightarrow>
   foldR (\<lambda>i t. if i < length t then Inr (t[i := x]) else Inl Out_of_bounds) [0..<k] t
   = Inr (replicate k x @ drop k t)"
proof (induction k)
  case 0
  then show ?case by simp
next
  case (Suc k)
  then have "drop k t = t ! k # drop (Suc k) t" by (simp add: Cons_nth_drop_Suc)
  with Suc show ?case
    by (simp add: foldR_append list_update_append replicate_append_same)
qed

lemma populate_table_map_eq [simp]:
  "populate_table_map (replicate n 0) n = Inr (replicate n 0xFFFFFFFF)"
  by (simp add: populate_table_map_def populate_loop)

lemma id_free_fresh [simp]: "id_free (replicate n 0xFFFFFFFF) i = (i < 32 * n)"
proof -
  have "(0xFFFFFFFF :: u32) = mask 32" by (simp add: mask_eq_exp_minus_1)
  then have "bit (0xFFFFFFFF :: u32) (i mod 32)" by (simp only: bit_mask_iff) simp
  then show ?thesis
    by (auto simp: id_free_def div_less_iff_less_mult mult.commute)
qed

text \<open>What \<open>configure_rt_tables\<close> makes of a context without maps.\<close>

definition fresh_maps :: "u8 \<Rightarrow> tas_ctx \<Rightarrow> tas_ctx" where
  "fresh_maps fams ctx =
     (let n = num_elements_for (num_tables ctx);
          fresh = (\<lambda>m. if fams AND m \<noteq> 0 then Some (replicate (unat n) 0xFFFFFFFF) else None)
      in ctx\<lparr>tables_inet := fresh ADDR_FAMILY_INET, tables_inet6 := fresh ADDR_FAMILY_INET6,
             tables_unspec := fresh ADDR_FAMILY_UNSPEC, num_table_elements := n\<rparr>)"

lemma configure_rt_tables_fresh_maps:
  assumes "\<And>m. calloc_ok m"
    and "tables_inet ctx = None" "tables_inet6 ctx = None" "tables_unspec ctx = None"
  shows "configure_rt_tables calloc_ok ctx fams = Inr (Some (fresh_maps fams ctx))"
  using assms by (simp add: configure_rt_tables_def new_table_def fresh_maps_def Let_def)

lemma configure_rt_tables_result:
  assumes "configure_rt_tables calloc_ok ctx fams = Inr (Some ctx')"
    and "tables_inet ctx = None" "tables_inet6 ctx = None" "tables_unspec ctx = None"
  shows "ctx' = fresh_maps fams ctx"
  using assms
  by (auto simp: configure_rt_tables_def new_table_def fresh_maps_def Let_def res_simps
      split: if_splits option.splits)

lemma fresh_maps_frame [simp]:
  "num_tables (fresh_maps fams ctx) = num_tables ctx" "table_offset (fresh_maps fams ctx) = table_offset ctx"
  "table_timeout (fresh_maps fams ctx) = table_timeout ctx" "rt_rows (fresh_maps fams ctx) = rt_rows ctx"
  "socket_path (fresh_maps fams ctx) = socket_path ctx" "db_path (fresh_maps fams ctx) = db_path ctx"
  "client_req_buffer (fresh_maps fams ctx) = client_req_buffer ctx"
  by (simp_all add: fresh_maps_def Let_def)

lemma fresh_maps_geometry:
  "0 < table_offset ctx \<Longrightarrow> unat (table_offset ctx) + unat (num_tables ctx) < 2 ^ 32 \<Longrightarrow>
   unat (num_tables ctx) \<le> 2 ^ 32 - 32 \<Longrightarrow> geometry (fresh_maps fams ctx)"
  by (simp add: geometry_def fresh_maps_def map_sized_def Let_def)

lemma fresh_maps_enabled:
  "(tables_inet (fresh_maps fams ctx) \<noteq> None) = (fams AND ADDR_FAMILY_INET \<noteq> 0)"
  "(tables_inet6 (fresh_maps fams ctx) \<noteq> None) = (fams AND ADDR_FAMILY_INET6 \<noteq> 0)"
  "(tables_unspec (fresh_maps fams ctx) \<noteq> None) = (fams AND ADDR_FAMILY_UNSPEC \<noteq> 0)"
  by (simp_all add: fresh_maps_def Let_def)

lemma fresh_maps_free:
  assumes "family_map (fresh_maps fams ctx) f \<noteq> None"
  shows "ctx_free (fresh_maps fams ctx) f i = (i < capacity (fresh_maps fams ctx))"
proof -
  have "family_map (fresh_maps fams ctx) f \<in>
      {None, Some (replicate (unat (num_elements_for (num_tables ctx))) 0xFFFFFFFF)}"
    by (simp add: family_map_def fresh_maps_def Let_def)
  with assms have "family_map (fresh_maps fams ctx) f
      = Some (replicate (unat (num_elements_for (num_tables ctx))) 0xFFFFFFFF)" by auto
  then show ?thesis
    by (simp add: ctx_free_def) (simp add: capacity_def fresh_maps_def Let_def)
qed

section \<open>The map as a set of numbers\<close>

text \<open>
  What the handlers rely on: a set of free numbers below a limit, from which the least is
  allocated, to which a number that is taken is released, from which a number that is free is
  claimed, and in which any number can be looked up. \<open>spec_op\<close> is an operation on the set, with the
  answer as a number (0 for an allocation that fails, and for the operations without an answer).
\<close>

datatype 't pool_op = Allocate | Release 't | Claim 't | Lookup 't

fun spec_op :: "('t \<Rightarrow> nat) \<Rightarrow> 't pool_op \<Rightarrow> nat set \<Rightarrow> nat \<times> nat set" where
  "spec_op number Allocate S = (if S = {} then (0, {}) else (Suc (Min S), S - {Min S}))"
| "spec_op number (Release t) S = (0, insert (number t) S)"
| "spec_op number (Claim t) S = (0, S - {number t})"
| "spec_op number (Lookup t) S = (of_bool (number t \<in> S), S)"

fun allowed_op :: "('t \<Rightarrow> nat) \<Rightarrow> nat \<Rightarrow> 't pool_op \<Rightarrow> nat set \<Rightarrow> bool" where
  "allowed_op number limit Allocate S = True"
| "allowed_op number limit (Release t) S = (number t < limit \<and> number t \<notin> S)"
| "allowed_op number limit (Claim t) S = (number t < limit \<and> number t \<in> S)"
| "allowed_op number limit (Lookup t) S = (number t < limit)"

fun spec_ops :: "('t \<Rightarrow> nat) \<Rightarrow> 't pool_op list \<Rightarrow> nat set \<Rightarrow> nat list \<times> nat set" where
  "spec_ops number [] S = ([], S)"
| "spec_ops number (x # xs) S = (case spec_op number x S of (r, S1) \<Rightarrow>
     case spec_ops number xs S1 of (rs, S2) \<Rightarrow> (r # rs, S2))"

fun allowed_ops :: "('t \<Rightarrow> nat) \<Rightarrow> nat \<Rightarrow> 't pool_op list \<Rightarrow> nat set \<Rightarrow> bool" where
  "allowed_ops number limit [] S = True"
| "allowed_ops number limit (x # xs) S =
     (allowed_op number limit x S \<and> allowed_ops number limit xs (snd (spec_op number x S)))"

text \<open>An implementation, and its run over a sequence of operations.\<close>

fun run_ops :: "('t pool_op \<Rightarrow> 'p \<Rightarrow> (nat \<times> 'p) res) \<Rightarrow> 't pool_op list \<Rightarrow> 'p \<Rightarrow> (nat list \<times> 'p) res" where
  "run_ops do_op [] p = Inr ([], p)"
| "run_ops do_op (x # xs) p = bindR (do_op x p) (\<lambda>(r, p1).
     bindR (run_ops do_op xs p1) (\<lambda>(rs, p2). Inr (r # rs, p2)))"

locale id_pool =
  fixes free :: "'p \<Rightarrow> nat set"
    and wf_pool :: "'p \<Rightarrow> bool"
    and number :: "'t \<Rightarrow> nat"
    and limit :: nat
    and do_op :: "'t pool_op \<Rightarrow> 'p \<Rightarrow> (nat \<times> 'p) res"
  assumes allocate_none: "wf_pool p \<Longrightarrow> free p = {} \<Longrightarrow>
      \<exists>p'. do_op Allocate p = Inr (0, p') \<and> wf_pool p' \<and> free p' = {}"
    and allocate_least: "wf_pool p \<Longrightarrow> free p \<noteq> {} \<Longrightarrow>
      \<exists>p'. do_op Allocate p = Inr (Suc (Min (free p)), p') \<and> wf_pool p' \<and> free p' = free p - {Min (free p)}"
    and release: "wf_pool p \<Longrightarrow> number t < limit \<Longrightarrow> number t \<notin> free p \<Longrightarrow>
      \<exists>p'. do_op (Release t) p = Inr (0, p') \<and> wf_pool p' \<and> free p' = insert (number t) (free p)"
    and claim: "wf_pool p \<Longrightarrow> number t < limit \<Longrightarrow> number t \<in> free p \<Longrightarrow>
      \<exists>p'. do_op (Claim t) p = Inr (0, p') \<and> wf_pool p' \<and> free p' = free p - {number t}"
    and look_up: "wf_pool p \<Longrightarrow> number t < limit \<Longrightarrow> do_op (Lookup t) p = Inr (of_bool (number t \<in> free p), p)"
begin

lemma op_refines:
  assumes "wf_pool p" and "allowed_op number limit x (free p)"
  shows "\<exists>p'. do_op x p = Inr (fst (spec_op number x (free p)), p') \<and> wf_pool p' \<and> free p' = snd (spec_op number x (free p))"
proof (cases x)
  case Allocate
  then show ?thesis using allocate_none [OF assms(1)] allocate_least [OF assms(1)] by simp
qed (use assms release claim look_up in auto)

lemma ops_refine:
  "wf_pool p \<Longrightarrow> allowed_ops number limit xs (free p) \<Longrightarrow>
   \<exists>p'. run_ops do_op xs p = Inr (fst (spec_ops number xs (free p)), p') \<and> wf_pool p'
     \<and> free p' = snd (spec_ops number xs (free p))"
proof (induction xs arbitrary: p)
  case (Cons x xs)
  then have "allowed_op number limit x (free p)" by simp
  from op_refines [OF Cons.prems(1) this] obtain q where
    q: "do_op x p = Inr (fst (spec_op number x (free p)), q)" "wf_pool q" "free q = snd (spec_op number x (free p))" by blast
  with Cons.IH [of q] Cons.prems(2) obtain p' where "run_ops do_op xs q = Inr (fst (spec_ops number xs (free q)), p')" "wf_pool p'"
      "free p' = snd (spec_ops number xs (free q))" by auto
  with q show ?case by (auto split: prod.split)
qed simp

end

text \<open>
  The four functions of the code on the map of one family provide it. The numbers are offsets of
  tables, the limit is \<open>num_tables\<close>; the maps of the other families stay as they were.
\<close>

fun table_op :: "u8 \<Rightarrow> u32 pool_op \<Rightarrow> tas_ctx \<Rightarrow> (nat \<times> tas_ctx) res" where
  "table_op f Allocate ctx = bindR (allocate_table ctx f) (\<lambda>(r, ctx'). Inr (unat r, ctx'))"
| "table_op f (Release t) ctx = bindR (release_table ctx f t) (\<lambda>ctx'. Inr (0, ctx'))"
| "table_op f (Claim t) ctx = bindR (set_table ctx f t) (\<lambda>ctx'. Inr (0, ctx'))"
| "table_op f (Lookup t) ctx = bindR (is_table_free ctx f t) (\<lambda>b. Inr (of_bool b, ctx))"

definition free_numbers :: "u8 \<Rightarrow> tas_ctx \<Rightarrow> nat set" where
  "free_numbers f ctx = {i. i < unat (num_tables ctx) \<and> ctx_free ctx f i}"

definition pool_of :: "u8 \<Rightarrow> tas_ctx \<Rightarrow> tas_ctx \<Rightarrow> bool" where
  "pool_of f ctx0 ctx \<longleftrightarrow> geometry ctx \<and> family_map ctx f \<noteq> None \<and> 32 \<le> unat (num_tables ctx)
     \<and> num_tables ctx = num_tables ctx0 \<and> table_id ctx = table_id ctx0
     \<and> (\<forall>g. \<not> same_map f g \<longrightarrow> ctx_free ctx g = ctx_free ctx0 g)"

lemma free_numbers_toggle:
  assumes "pool_of f ctx0 ctx" and "i < capacity ctx"
  shows "pool_of f ctx0 (toggle_id ctx f i)"
    "free_numbers f (toggle_id ctx f i) = (if i \<in> free_numbers f ctx then free_numbers f ctx - {i}
       else if i < unat (num_tables ctx) then insert i (free_numbers f ctx) else free_numbers f ctx)"
  using assms
  by (auto simp: pool_of_def free_numbers_def ctx_free_toggle same_map_def fun_eq_iff)

interpretation table_pool: id_pool "free_numbers f" "pool_of f ctx0" "table_id ctx0" "unat (num_tables ctx0)" "table_op f"
  for f ctx0
proof unfold_locales
  fix ctx t
  assume p: "pool_of f ctx0 ctx"
  then have g: "geometry ctx" "family_map ctx f \<noteq> None" and same: "num_tables ctx0 = num_tables ctx" "table_id ctx0 = table_id ctx"
    by (simp_all add: pool_of_def)
  have fits: "unat (num_tables ctx) \<le> capacity ctx"
    using p num_tables_capacity [OF g(1)] unfolding pool_of_def by blast
  have finite: "finite (free_numbers f ctx)" by (simp add: free_numbers_def)
  note toggle = free_numbers_toggle [OF p]
  show "\<exists>p'. table_op f Allocate ctx = Inr (0, p') \<and> pool_of f ctx0 p' \<and> free_numbers f p' = {}" if "free_numbers f ctx = {}"
    using g
  proof (cases rule: allocate_table_cases)
    case (none ctx')
    have spare: "free_numbers f (toggle_id ctx f i) = free_numbers f ctx" if "unat (num_tables ctx) \<le> i" "i < capacity ctx" for i
      using toggle(2) [OF that(2)] that(1) by (simp add: free_numbers_def)
    then have "pool_of f ctx0 ctx' \<and> free_numbers f ctx' = free_numbers f ctx" using none(3) p toggle(1) by auto
    then show ?thesis using that none(1) by simp
  qed (use that in \<open>auto simp: free_numbers_def\<close>)
  show "\<exists>p'. table_op f Allocate ctx = Inr (Suc (Min (free_numbers f ctx)), p') \<and> pool_of f ctx0 p'
      \<and> free_numbers f p' = free_numbers f ctx - {Min (free_numbers f ctx)}" if "free_numbers f ctx \<noteq> {}"
    using g
  proof (cases rule: allocate_table_cases)
    case (some i)
    then have i: "i \<in> free_numbers f ctx" by (simp add: free_numbers_def)
    moreover have "Min (free_numbers f ctx) = i"
      using some(5) i finite by (intro Min_eqI) (auto simp: free_numbers_def not_less [symmetric])
    ultimately show ?thesis using some(1,6) toggle [OF some(3)] by simp
  qed (use that in \<open>auto simp: free_numbers_def\<close>)
  show "\<exists>p'. table_op f (Release t) ctx = Inr (0, p') \<and> pool_of f ctx0 p' \<and> free_numbers f p' = insert (table_id ctx0 t) (free_numbers f ctx)"
    if "table_id ctx0 t < unat (num_tables ctx0)" "table_id ctx0 t \<notin> free_numbers f ctx"
    using that fits toggle [of "table_id ctx t"] release_table_eq [OF g, of t] by (simp add: same)
  show "\<exists>p'. table_op f (Claim t) ctx = Inr (0, p') \<and> pool_of f ctx0 p' \<and> free_numbers f p' = free_numbers f ctx - {table_id ctx0 t}"
    if "table_id ctx0 t < unat (num_tables ctx0)" "table_id ctx0 t \<in> free_numbers f ctx"
    using that fits toggle [of "table_id ctx t"] set_table_eq [OF g, of t] by (simp add: same)
  show "table_op f (Lookup t) ctx = Inr (of_bool (table_id ctx0 t \<in> free_numbers f ctx), ctx)"
    if "table_id ctx0 t < unat (num_tables ctx0)"
    using that is_table_free_eq [OF g, of t] by (simp add: same free_numbers_def)
qed

section \<open>Properties\<close>

text \<open>C23: \<open>allocate_table\<close> hands out the least free identifier below \<open>num_tables\<close>,
  counted from 1, marks exactly that identifier taken, and returns 0 exactly when no identifier
  below \<open>num_tables\<close> is free. It never faults on an enabled family.\<close>

theorem allocate_table_least:
  assumes "geometry ctx" and "family_map ctx f \<noteq> None"
  shows "\<exists>r ctx'. allocate_table ctx f = Inr (r, ctx')
    \<and> (r = 0 \<longleftrightarrow> (\<forall>i < unat (num_tables ctx). \<not> ctx_free ctx f i))
    \<and> (r \<noteq> 0 \<longrightarrow> unat r \<le> unat (num_tables ctx)
         \<and> ctx_free ctx f (unat r - 1) \<and> (\<forall>j < unat r - 1. \<not> ctx_free ctx f j)
         \<and> (\<forall>g j. ctx_free ctx' g j = (ctx_free ctx g j \<and> \<not> (same_map f g \<and> j = unat r - 1))))"
  using assms
proof (cases rule: allocate_table_cases)
  case (none ctx')
  then show ?thesis by auto
next
  case (some i)
  then have "(of_nat (Suc i) :: u32) \<noteq> 0" by (metis Zero_not_Suc unat_0)
  moreover have "\<forall>g j. ctx_free (toggle_id ctx f i) g j
      = (ctx_free ctx g j \<and> \<not> (same_map f g \<and> j = i))"
    using ctx_free_toggle [OF assms some(3)] some(4) same_map_free by auto
  ultimately show ?thesis using some by auto
qed


text \<open>C25: releasing the table just allocated restores every family's set of free tables:
  the offset arithmetic of the two functions agrees.\<close>

theorem allocate_release_roundtrip:
  assumes "geometry ctx" and "family_map ctx f \<noteq> None"
    and "allocate_table ctx f = Inr (r, ctx')" and "r \<noteq> 0"
  shows "\<exists>ctx''. release_table ctx' f (table_offset ctx + (r - 1)) = Inr ctx''
    \<and> (\<forall>g j. ctx_free ctx'' g j = ctx_free ctx g j)"
  using assms(1,2)
proof (cases rule: allocate_table_cases)
  case (none c)
  with assms show ?thesis by simp
next
  case (some i)
  with assms have r: "r = of_nat (Suc i)" "ctx' = toggle_id ctx f i" by auto
  have "unat r = Suc i" unfolding r by (rule some(6))
  then have "unat (r - 1) = i"
    using unat_minus_one [OF assms(4)] by simp
  then have id: "table_id ctx (table_offset ctx + (r - 1)) = i"
    by (simp add: table_id_def)
  have "release_table ctx' f (table_offset ctx + (r - 1)) = Inr (toggle_id ctx' f i)"
    using release_table_eq [of ctx' f "table_offset ctx + (r - 1)"] assms some(3) id r(2) by simp
  moreover have "ctx_free (toggle_id ctx' f i) g j = ctx_free ctx g j" for g j
    using assms some(3,4) r(2) same_map_free [of f g ctx] by (simp add: ctx_free_toggle)
  ultimately show ?thesis by blast
qed

text \<open>C37: with fewer than 32 tables configured the map has no words and no request can ever
  be served, although \<open>num_tables\<close> is accepted by the configuration.\<close>

theorem few_tables_never_allocated:
  assumes "geometry ctx" and "family_map ctx f \<noteq> None" and "num_tables ctx < 32"
  shows "allocate_table ctx f = Inr (0, ctx)"
proof -
  have "unat (num_tables ctx) < 32" using assms(3) by (simp add: word_less_nat_alt)
  then have "capacity ctx = 0" using assms(1) by (simp add: capacity_eq)
  with assms show ?thesis
    by (cases rule: allocate_table_cases) auto
qed

section \<open>Witnesses\<close>

text \<open>
  The context of the shipped \<^verbatim>\<open>server_config.json\<close> over an empty database: 40 tables from
  10000, only IPv4, leases of an hour. \<open>busy_ctx\<close> is the same after 33 allocations.
\<close>

definition example_ctx :: tas_ctx where
  "example_ctx = (calloc_ctx [])\<lparr>tables_inet := Some [0xFFFFFFFF, 0xFFFFFFFF],
     num_table_elements := 2, num_tables := 40, table_offset := 10000, table_timeout := 3600\<rparr>"

definition busy_ctx :: tas_ctx where
  "busy_ctx = example_ctx\<lparr>tables_inet := Some [0, 0xFFFFFFFE]\<rparr>"

lemma example_ctx_simps [simp]:
  "tables_inet example_ctx = Some [0xFFFFFFFF, 0xFFFFFFFF]" "tables_inet6 example_ctx = None"
  "tables_unspec example_ctx = None" "num_table_elements example_ctx = 2"
  "num_tables example_ctx = 40" "table_offset example_ctx = 10000" "rt_rows example_ctx = []"
  "table_timeout example_ctx = 3600" "family_map example_ctx AF_INET = Some [0xFFFFFFFF, 0xFFFFFFFF]"
  "capacity example_ctx = 64"
  by (simp_all add: example_ctx_def calloc_ctx_def family_map_def capacity_def)

lemma geometry_example [simp]: "geometry example_ctx" "geometry busy_ctx"
  by (simp_all add: busy_ctx_def geometry_def map_sized_def num_elements_for_def)

lemma allocate_busy: "allocate_table busy_ctx AF_INET =
  Inr (34, busy_ctx\<lparr>tables_inet := Some [0, 0xFFFFFFFC]\<rparr>)"
  by (simp add: busy_ctx_def allocate_table_def family_map_def update_family_map_def
      allocate_loop.simps ffs_def upt_rec bit_simps Let_def)

theorem allocate_table_least_witness:
  "geometry busy_ctx \<and> family_map busy_ctx AF_INET \<noteq> None \<and>
   (\<exists>ctx'. allocate_table busy_ctx AF_INET = Inr (34, ctx') \<and> ctx_free busy_ctx AF_INET 33
     \<and> (\<forall>j < 33. \<not> ctx_free busy_ctx AF_INET j))"
proof -
  have h: "geometry busy_ctx" "family_map busy_ctx AF_INET \<noteq> None"
    by (simp, simp add: busy_ctx_def family_map_def)
  then show ?thesis using allocate_table_least [OF h] by (auto simp: allocate_busy)
qed


theorem allocate_release_roundtrip_witness:
  "\<exists>ctx' ctx''. allocate_table busy_ctx AF_INET = Inr (34, ctx')
    \<and> release_table ctx' AF_INET 10033 = Inr ctx''
    \<and> (\<forall>g j. ctx_free ctx'' g j = ctx_free busy_ctx g j)"
proof -
  have h: "geometry busy_ctx" "family_map busy_ctx AF_INET \<noteq> None" "(34 :: u32) \<noteq> 0"
    by (simp, simp add: busy_ctx_def family_map_def, simp)
  have "table_offset busy_ctx + (34 - 1) = 10033" by (simp add: busy_ctx_def)
  then show ?thesis
    using allocate_release_roundtrip [OF h(1,2) allocate_busy h(3)] allocate_busy by auto
qed

theorem few_tables_never_allocated_witness:
  "allocate_table (example_ctx\<lparr>tables_inet := Some [], num_table_elements := 0, num_tables := 31\<rparr>)
     AF_INET = Inr (0, example_ctx\<lparr>tables_inet := Some [], num_table_elements := 0, num_tables := 31\<rparr>)"
  by (rule few_tables_never_allocated)
    (simp_all add: geometry_def map_sized_def num_elements_for_def family_map_def)

end
