(* ===== verification/Lease_Db.thy ===== *)
theory Lease_Db
  imports Server_State
begin

text \<open>
  The lease database, \<^verbatim>\<open>table_allocator_server_sqlite.c\<close> over the statements of
  \<^verbatim>\<open>table_allocator_server_sqlite.h\<close>. Each SQL statement is a function on the rows of
  \<open>RtTables\<close>; each C function binds, steps and reports as the code does, with the result
  codes sqlite answers as arguments. A statement that fails changes nothing (sqlite backs it
  out). The interface \<open>lease_store\<close> says what the clients of the database rely on.
\<close>

section \<open>The SQL statements\<close>

text \<open>\<open>SELECT_RT_TABLE\<close>, \<open>INSERT_RT_TABLE\<close> with the primary key's \<open>ON CONFLICT REPLACE\<close>,
  \<open>DELETE_RT_TABLE\<close>, \<open>UPDATE_RT_TABLE\<close>, and the statements on dead and live leases.\<close>

definition is_client :: "int \<Rightarrow> string \<Rightarrow> string \<Rightarrow> rt_row \<Rightarrow> bool" where
  "is_client fam ifname addr r \<longleftrightarrow> AddrFamily r = fam \<and> Ifname r = ifname \<and> Addr r = addr"

definition select_rt_table :: "int \<Rightarrow> string \<Rightarrow> string \<Rightarrow> rt_row list \<Rightarrow> int list" where
  "select_rt_table fam ifname addr rows = map RtTable (filter (is_client fam ifname addr) rows)"

definition insert_rt_table :: "rt_row \<Rightarrow> rt_row list \<Rightarrow> rt_row list" where
  "insert_rt_table r rows =
     filter (\<lambda>q. \<not> (RtTable q = RtTable r \<and> AddrFamily q = AddrFamily r)) rows @ [r]"

definition delete_rt_table :: "int \<Rightarrow> string \<Rightarrow> string \<Rightarrow> rt_row list \<Rightarrow> rt_row list" where
  "delete_rt_table fam ifname addr rows = filter (\<lambda>r. \<not> is_client fam ifname addr r) rows"

definition update_rt_table :: "int \<Rightarrow> int \<Rightarrow> int \<Rightarrow> rt_row list \<Rightarrow> rt_row list" where
  "update_rt_table lease fam tbl rows =
     map (\<lambda>r. if AddrFamily r = fam \<and> RtTable r = tbl then r\<lparr>LeaseExpires := lease\<rparr> else r) rows"

definition select_dead_leases :: "int \<Rightarrow> rt_row list \<Rightarrow> (int \<times> int) list" where
  "select_dead_leases lim rows =
     map (\<lambda>r. (RtTable r, AddrFamily r)) (filter (\<lambda>r. LeaseExpires r \<le> lim) rows)"

definition delete_dead_leases :: "int \<Rightarrow> rt_row list \<Rightarrow> rt_row list" where
  "delete_dead_leases lim rows = filter (\<lambda>r. \<not> LeaseExpires r \<le> lim) rows"

definition select_alive_leases :: "int \<Rightarrow> rt_row list \<Rightarrow> (int \<times> int) list" where
  "select_alive_leases lim rows =
     map (\<lambda>r. (RtTable r, AddrFamily r)) (filter (\<lambda>r. LeaseExpires r > lim) rows)"

section \<open>The C functions\<close>

text \<open>
  What sqlite answers to one function: the code of the bindings (0 unless one of them failed),
  of the separate binding of the tag, of the step that ends the statement, and, for a
  \<open>SELECT\<close>, how many rows it delivers before a step fails (\<open>None\<close>: all of them).
\<close>

record sql_rc =
  bind_rc :: int
  tag_rc :: int
  step_rc :: int
  row_limit :: "nat option"

definition SQLITE_DONE :: int where "SQLITE_DONE = 101"

definition sql_ok :: sql_rc where
  "sql_ok = \<lparr>bind_rc = 0, tag_rc = 0, step_rc = SQLITE_DONE, row_limit = None\<rparr>"

fun deliver :: "nat option \<Rightarrow> 'a list \<Rightarrow> 'a list" where
  "deliver None xs = xs"
| "deliver (Some n) xs = take n xs"

text \<open>The conversion of an integer argument to the \<open>int\<close> of \<open>sqlite3_bind_int\<close>.\<close>

definition c_int :: "int \<Rightarrow> int" where
  "c_int x = sint (word_of_int x :: u32)"

definition table_allocator_server_sqlite_create_db :: "int \<Rightarrow> int \<Rightarrow> int list \<Rightarrow> bool" where
  "table_allocator_server_sqlite_create_db open_rc exec_rc prepare_rcs =
     (if open_rc \<noteq> 0 then False
      else if exec_rc \<noteq> 0 then False
      else if list_ex (\<lambda>rc. rc \<noteq> 0) prepare_rcs then False
      else True)"

definition row_of :: "tas_client_req \<Rightarrow> u32 \<Rightarrow> int \<Rightarrow> rt_row" where
  "row_of rq rt_table lease_sec =
     \<lparr>RtTable = sint rt_table, AddrFamily = uint (req_family rq), Ifname = cstr (req_ifname rq),
      Addr = cstr (req_address rq), LeaseExpires = c_int lease_sec,
      Tag = (if cstr (req_tag rq) \<noteq> [] then Some (cstr (req_tag rq)) else None)\<rparr>"

definition table_allocator_sqlite_insert_table ::
  "sql_rc \<Rightarrow> tas_ctx \<Rightarrow> tas_client_req \<Rightarrow> u32 \<Rightarrow> int \<Rightarrow> bool \<times> tas_ctx" where
  "table_allocator_sqlite_insert_table rc ctx rq rt_table lease_sec =
     (if bind_rc rc \<noteq> 0 then (False, ctx)
      else if cstr (req_tag rq) \<noteq> [] \<and> tag_rc rc \<noteq> 0 then (False, ctx)
      else if step_rc rc \<noteq> SQLITE_DONE then (False, ctx)
      else (True, ctx\<lparr>rt_rows := insert_rt_table (row_of rq rt_table lease_sec) (rt_rows ctx)\<rparr>))"

definition table_allocator_sqlite_get_table :: "sql_rc \<Rightarrow> tas_ctx \<Rightarrow> tas_client_req \<Rightarrow> u32" where
  "table_allocator_sqlite_get_table rc ctx rq =
     (if bind_rc rc \<noteq> 0 then 0
      else case deliver (row_limit rc) (select_rt_table (uint (req_family rq))
                  (cstr (req_ifname rq)) (cstr (req_address rq)) (rt_rows ctx)) of
             [] \<Rightarrow> 0
           | t # _ \<Rightarrow> word_of_int t)"

definition table_allocator_sqlite_remove_table ::
  "sql_rc \<Rightarrow> tas_ctx \<Rightarrow> tas_client_req \<Rightarrow> bool \<times> tas_ctx" where
  "table_allocator_sqlite_remove_table rc ctx rq =
     (if bind_rc rc \<noteq> 0 then (False, ctx)
      else if step_rc rc \<noteq> SQLITE_DONE then (False, ctx)
      else (True, ctx\<lparr>rt_rows := delete_rt_table (uint (req_family rq)) (cstr (req_ifname rq))
                                  (cstr (req_address rq)) (rt_rows ctx)\<rparr>))"

definition table_allocator_sqlite_update_lease ::
  "sql_rc \<Rightarrow> tas_ctx \<Rightarrow> u32 \<Rightarrow> u8 \<Rightarrow> u32 \<Rightarrow> bool \<times> tas_ctx" where
  "table_allocator_sqlite_update_lease rc ctx rt_table addr_family lease_sec =
     (if bind_rc rc \<noteq> 0 then (False, ctx)
      else if step_rc rc \<noteq> SQLITE_DONE then (False, ctx)
      else (True, ctx\<lparr>rt_rows := update_rt_table (sint lease_sec) (uint addr_family)
                                  (sint rt_table) (rt_rows ctx)\<rparr>))"

text \<open>
  The callback runs on each row the \<open>SELECT\<close> delivers, then the rows are deleted. It never
  touches the database, so the rows selected are those of the call.
\<close>

type_synonym check_table_cb = "u8 \<Rightarrow> u32 \<Rightarrow> tas_ctx \<Rightarrow> tas_ctx res"

definition run_check_table :: "check_table_cb \<Rightarrow> (int \<times> int) list \<Rightarrow> tas_ctx \<Rightarrow> tas_ctx res" where
  "run_check_table cb = foldR (\<lambda>(t, f). cb (word_of_int f) (word_of_int t))"

definition table_allocator_sqlite_delete_dead_leases ::
  "sql_rc \<Rightarrow> sql_rc \<Rightarrow> tas_ctx \<Rightarrow> u32 \<Rightarrow> check_table_cb \<Rightarrow> (bool \<times> tas_ctx) res" where
  "table_allocator_sqlite_delete_dead_leases sel_rc del_rc ctx lease_limit cb =
     (if bind_rc sel_rc \<noteq> 0 then Inr (False, ctx)
      else bindR (run_check_table cb (deliver (row_limit sel_rc)
                    (select_dead_leases (sint lease_limit) (rt_rows ctx))) ctx)
        (\<lambda>ctx'.
          if bind_rc del_rc \<noteq> 0 then Inr (False, ctx')
          else if step_rc del_rc \<noteq> SQLITE_DONE then Inr (True, ctx')
          else Inr (True, ctx'\<lparr>rt_rows := delete_dead_leases (sint lease_limit) (rt_rows ctx')\<rparr>)))"

definition table_allocator_sqlite_build_table_map ::
  "int \<Rightarrow> sql_rc \<Rightarrow> tas_ctx \<Rightarrow> u32 \<Rightarrow> check_table_cb \<Rightarrow> (bool \<times> tas_ctx) res" where
  "table_allocator_sqlite_build_table_map prepare_rc rc ctx lease_limit cb =
     (if prepare_rc \<noteq> 0 then Inr (False, ctx)
      else if bind_rc rc \<noteq> 0 then Inr (False, ctx)
      else bindR (run_check_table cb (deliver (row_limit rc)
                    (select_alive_leases (sint lease_limit) (rt_rows ctx))) ctx)
        (\<lambda>ctx'. Inr (True, ctx')))"

section \<open>What the clients of the database rely on\<close>

text \<open>
  A store of leases: each client has at most one table of its family and each table at most
  one owner; a lease put in under a table takes the table from whoever had it.
\<close>

locale lease_store =
  fixes invar :: "'d \<Rightarrow> bool"
    and lookup :: "'d \<Rightarrow> 'k \<Rightarrow> 't option"
    and owner :: "'d \<Rightarrow> 'f \<Rightarrow> 't \<Rightarrow> 'k option"
    and fam_of :: "'k \<Rightarrow> 'f"
    and client :: "'r \<Rightarrow> 'k"
    and table_of :: "'r \<Rightarrow> 't"
    and insert :: "'r \<Rightarrow> 'd \<Rightarrow> 'd"
    and remove :: "'k \<Rightarrow> 'd \<Rightarrow> 'd"
  assumes owner_iff: "invar d \<Longrightarrow> (owner d f t = Some k) = (lookup d k = Some t \<and> fam_of k = f)"
    and lookup_insert: "invar d \<Longrightarrow> lookup d (client r) = None \<Longrightarrow>
      lookup (insert r d) k =
        (if k = client r then Some (table_of r)
         else if fam_of k = fam_of (client r) \<and> lookup d k = Some (table_of r) then None
         else lookup d k)"
    and invar_insert: "invar d \<Longrightarrow> lookup d (client r) = None \<Longrightarrow> invar (insert r d)"
    and lookup_remove: "invar d \<Longrightarrow> lookup (remove k' d) k = (if k = k' then None else lookup d k)"
    and invar_remove: "invar d \<Longrightarrow> invar (remove k d)"
begin

lemma one_owner:
  "invar d \<Longrightarrow> lookup d k = Some t \<Longrightarrow> lookup d k' = Some t \<Longrightarrow> fam_of k = fam_of k' \<Longrightarrow> k = k'"
  using owner_iff [of d "fam_of k" t k] owner_iff [of d "fam_of k" t k'] by simp

lemma insert_unowned:
  assumes "invar d" and "lookup d (client r) = None"
    and "owner d (fam_of (client r)) (table_of r) = None"
  shows "lookup (insert r d) = (lookup d)(client r \<mapsto> table_of r)"
proof (rule ext)
  fix k
  have "\<not> (fam_of k = fam_of (client r) \<and> lookup d k = Some (table_of r))"
    using assms owner_iff [of d "fam_of (client r)" "table_of r" k] by auto
  with assms show "lookup (insert r d) k = ((lookup d)(client r \<mapsto> table_of r)) k"
    by (auto simp: lookup_insert)
qed

lemma remove_insert:
  assumes "invar d" and "lookup d (client r) = None"
    and "owner d (fam_of (client r)) (table_of r) = None"
  shows "lookup (remove (client r) (insert r d)) = lookup d"
  using assms insert_unowned [OF assms] by (auto simp: lookup_remove invar_insert)

lemma owner_insert:
  assumes "invar d" and "lookup d (client r) = None"
  shows "owner (insert r d) (fam_of (client r)) (table_of r) = Some (client r)"
  using assms by (simp add: owner_iff invar_insert lookup_insert)

lemma owner_remove:
  assumes "invar d" and "lookup d k = Some t"
  shows "owner (remove k d) (fam_of k) t = None"
proof (rule ccontr)
  assume "owner (remove k d) (fam_of k) t \<noteq> None"
  then obtain k' where "owner (remove k d) (fam_of k) t = Some k'" by blast
  with assms have l: "lookup (remove k d) k' = Some t" and f: "fam_of k' = fam_of k"
    by (simp_all add: owner_iff invar_remove)
  from l assms(1) have ne: "k' \<noteq> k" and "lookup d k' = Some t"
    by (auto simp: lookup_remove split: if_splits)
  then show False using one_owner [OF assms(1) _ assms(2) f] by blast
qed

end

text \<open>Leases expire: the store also drops the leases whose time has come.\<close>

locale expiring_store = lease_store +
  fixes expiry :: "'d \<Rightarrow> 'k \<Rightarrow> int option"
    and expire :: "int \<Rightarrow> 'd \<Rightarrow> 'd"
  assumes expiry_dom: "invar d \<Longrightarrow> (expiry d k = None) = (lookup d k = None)"
    and lookup_expire: "invar d \<Longrightarrow> lookup (expire lim d) k =
      (case expiry d k of None \<Rightarrow> None | Some e \<Rightarrow> if e \<le> lim then None else lookup d k)"
    and invar_expire: "invar d \<Longrightarrow> invar (expire lim d)"
begin

lemma expire_keeps_live:
  "invar d \<Longrightarrow> expiry d k = Some e \<Longrightarrow> lim < e \<Longrightarrow> lookup (expire lim d) k = lookup d k"
  by (simp add: lookup_expire)

lemma expire_frees:
  assumes "invar d" and "lookup d k = Some t" and "expiry d k = Some e" and "e \<le> lim"
  shows "owner (expire lim d) (fam_of k) t = None"
proof (rule ccontr)
  assume "owner (expire lim d) (fam_of k) t \<noteq> None"
  then obtain k' where "owner (expire lim d) (fam_of k) t = Some k'" by blast
  with assms(1) have l: "lookup (expire lim d) k' = Some t" and f: "fam_of k' = fam_of k"
    by (simp_all add: owner_iff invar_expire)
  from l assms(1) have "lookup d k' = Some t"
    by (auto simp: lookup_expire split: option.splits if_splits)
  then have "k' = k" using one_owner [OF assms(1) _ assms(2) f] by blast
  with l assms show False by (simp add: lookup_expire)
qed

end

section \<open>The rows as a lease store\<close>

type_synonym client_key = "int \<times> string \<times> string"

definition client_of :: "rt_row \<Rightarrow> client_key" where
  "client_of r = (AddrFamily r, Ifname r, Addr r)"

definition primary_key :: "rt_row list \<Rightarrow> bool" where
  "primary_key rows \<longleftrightarrow> distinct (map (\<lambda>r. (RtTable r, AddrFamily r)) rows)"

definition one_lease :: "rt_row list \<Rightarrow> bool" where
  "one_lease rows \<longleftrightarrow> distinct (map client_of rows)"

definition leased_table :: "rt_row list \<Rightarrow> client_key \<Rightarrow> int option" where
  "leased_table rows k =
     (case k of (f, i, a) \<Rightarrow>
        case select_rt_table f i a rows of [] \<Rightarrow> None | t # _ \<Rightarrow> Some t)"

definition table_owner :: "rt_row list \<Rightarrow> int \<Rightarrow> int \<Rightarrow> client_key option" where
  "table_owner rows f t =
     map_option client_of (find (\<lambda>r. RtTable r = t \<and> AddrFamily r = f) rows)"

definition lease_end :: "rt_row list \<Rightarrow> client_key \<Rightarrow> int option" where
  "lease_end rows k = map_option LeaseExpires (find (\<lambda>r. client_of r = k) rows)"

lemma is_client_iff: "is_client f i a r = (client_of r = (f, i, a))"
  by (auto simp: is_client_def client_of_def)

lemma leased_table_find:
  "leased_table rows k = map_option RtTable (find (\<lambda>r. client_of r = k) rows)"
proof -
  have "(case map RtTable (filter P rows) of [] \<Rightarrow> None | t # _ \<Rightarrow> Some t)
      = map_option RtTable (find P rows)" for P
    by (induction rows) auto
  then show ?thesis
    by (cases k) (simp add: leased_table_def select_rt_table_def is_client_iff [abs_def])
qed

text \<open>Over distinct keys, \<open>find\<close> is membership.\<close>

lemma find_distinct:
  "distinct (map g rows) \<Longrightarrow> (find (\<lambda>r. g r = k) rows = Some r) = (r \<in> set rows \<and> g r = k)"
  by (induction rows) force+

lemma find_None: "(find P rows = None) = (\<forall>r \<in> set rows. \<not> P r)"
  by (auto simp: find_None_iff)

lemma leased_table_Some:
  "one_lease rows \<Longrightarrow>
   (leased_table rows k = Some t) = (\<exists>r \<in> set rows. client_of r = k \<and> RtTable r = t)"
  by (auto simp: leased_table_find one_lease_def find_distinct)

lemma leased_table_None: "(leased_table rows k = None) = (\<forall>r \<in> set rows. client_of r \<noteq> k)"
  by (auto simp: leased_table_find find_None)

lemma table_owner_Some:
  "primary_key rows \<Longrightarrow> (table_owner rows f t = Some k) =
   (\<exists>r \<in> set rows. RtTable r = t \<and> AddrFamily r = f \<and> client_of r = k)"
  using find_distinct [of "\<lambda>r. (RtTable r, AddrFamily r)" rows "(t, f)"]
  by (auto simp: table_owner_def primary_key_def)

lemma table_owner_None:
  "(table_owner rows f t = None) = (\<forall>r \<in> set rows. \<not> (RtTable r = t \<and> AddrFamily r = f))"
  by (simp add: table_owner_def find_None)

lemma lease_end_Some:
  "one_lease rows \<Longrightarrow>
   (lease_end rows k = Some e) = (\<exists>r \<in> set rows. client_of r = k \<and> LeaseExpires r = e)"
  by (auto simp: lease_end_def one_lease_def find_distinct)

lemma primary_key_insert: "primary_key rows \<Longrightarrow> primary_key (insert_rt_table r rows)"
  by (auto simp: primary_key_def insert_rt_table_def distinct_map_filter)

lemma one_lease_insert:
  "one_lease rows \<Longrightarrow> leased_table rows (client_of r) = None \<Longrightarrow> one_lease (insert_rt_table r rows)"
  by (auto simp: one_lease_def insert_rt_table_def distinct_map_filter leased_table_None)

lemma set_insert_rt_table:
  "set (insert_rt_table r rows) =
   insert r {q \<in> set rows. \<not> (RtTable q = RtTable r \<and> AddrFamily q = AddrFamily r)}"
  by (auto simp: insert_rt_table_def)

lemma set_delete_rt_table:
  "set (delete_rt_table f i a rows) = {r \<in> set rows. client_of r \<noteq> (f, i, a)}"
  by (auto simp: delete_rt_table_def is_client_iff)

lemma keys_delete:
  "primary_key rows \<Longrightarrow> primary_key (delete_rt_table f i a rows)"
  "one_lease rows \<Longrightarrow> one_lease (delete_rt_table f i a rows)"
  by (simp_all add: primary_key_def one_lease_def delete_rt_table_def distinct_map_filter)

lemma keys_expire:
  "primary_key rows \<Longrightarrow> primary_key (delete_dead_leases lim rows)"
  "one_lease rows \<Longrightarrow> one_lease (delete_dead_leases lim rows)"
  by (simp_all add: primary_key_def one_lease_def delete_dead_leases_def distinct_map_filter)

lemma map_update_rt_table:
  "(\<And>r. g (r\<lparr>LeaseExpires := e\<rparr>) = g r) \<Longrightarrow> map g (update_rt_table e f t rows) = map g rows"
  by (auto simp: update_rt_table_def)

lemma keys_update [simp]:
  "primary_key (update_rt_table e f t rows) = primary_key rows"
  "one_lease (update_rt_table e f t rows) = one_lease rows"
  by (simp_all add: primary_key_def one_lease_def map_update_rt_table client_of_def [abs_def])

text \<open>What each statement does to the lease of a client.\<close>

lemma leased_table_eqI:
  assumes "one_lease rows" and "one_lease rows'"
    and "\<And>t. (\<exists>r \<in> set rows. client_of r = k \<and> RtTable r = t) =
      (\<exists>r \<in> set rows'. client_of r = k' \<and> RtTable r = t)"
  shows "leased_table rows k = leased_table rows' k'"
  using assms(3) leased_table_Some [OF assms(1)] leased_table_Some [OF assms(2)]
  by (metis option.exhaust)

lemma leased_table_insert:
  assumes "primary_key rows" and one: "one_lease rows" and none: "leased_table rows (client_of r) = None"
  shows "leased_table (insert_rt_table r rows) k =
    (if k = client_of r then Some (RtTable r)
     else if fst k = fst (client_of r) \<and> leased_table rows k = Some (RtTable r) then None
     else leased_table rows k)"
proof -
  note ins = one_lease_insert [OF one none]
  note sets = set_insert_rt_table
  consider (new) "k = client_of r"
    | (lost) "k \<noteq> client_of r" "fst k = fst (client_of r)" "leased_table rows k = Some (RtTable r)"
    | (kept) "k \<noteq> client_of r" "\<not> (fst k = fst (client_of r) \<and> leased_table rows k = Some (RtTable r))"
    by blast
  then show ?thesis
  proof cases
    case new
    then show ?thesis using leased_table_Some [OF ins] by (simp add: sets)
  next
    case lost
    then have "leased_table (insert_rt_table r rows) k = None"
      using one by (auto simp: leased_table_None leased_table_Some sets one_lease_def
          client_of_def distinct_map inj_on_def)
    with lost show ?thesis by simp
  next
    case kept
    then have "leased_table (insert_rt_table r rows) k = leased_table rows k"
      using one by (intro leased_table_eqI [OF ins one])
        (auto simp: sets leased_table_Some client_of_def)
    with kept show ?thesis by auto
  qed
qed

lemma leased_table_delete:
  assumes "one_lease rows"
  shows "leased_table (delete_rt_table f i a rows) k =
    (if k = (f, i, a) then None else leased_table rows k)"
proof (cases "k = (f, i, a)")
  case True
  then show ?thesis by (simp add: leased_table_None set_delete_rt_table)
next
  case False
  then show ?thesis
    using assms by (auto simp: set_delete_rt_table keys_delete intro!: leased_table_eqI)
qed

lemma leased_table_expire:
  assumes "one_lease rows"
  shows "leased_table (delete_dead_leases lim rows) k =
    (case lease_end rows k of None \<Rightarrow> None | Some e \<Rightarrow> if e \<le> lim then None else leased_table rows k)"
proof (cases "lease_end rows k")
  case None
  then have "leased_table (delete_dead_leases lim rows) k = None"
    by (simp add: leased_table_None delete_dead_leases_def lease_end_def find_None)
  with None show ?thesis by simp
next
  case (Some e)
  then obtain r where r: "r \<in> set rows" "client_of r = k" "LeaseExpires r = e"
    using lease_end_Some [OF assms] by blast
  then have uniq: "q = r" if "q \<in> set rows" "client_of q = k" for q
    using that assms by (auto simp: one_lease_def distinct_map inj_on_def)
  show ?thesis
  proof (cases "e \<le> lim")
    case True
    with Some r(3) uniq show ?thesis
      by (auto simp: leased_table_None delete_dead_leases_def)
  next
    case False
    have "r \<in> set (delete_dead_leases lim rows)"
      using False r by (simp add: delete_dead_leases_def)
    moreover have "set (delete_dead_leases lim rows) \<subseteq> set rows"
      by (auto simp: delete_dead_leases_def)
    ultimately have "leased_table (delete_dead_leases lim rows) k = leased_table rows k"
      using uniq r by (intro leased_table_eqI [OF keys_expire(2) [OF assms] assms]) blast
    with False Some show ?thesis by simp
  qed
qed

lemma table_owner_iff:
  "primary_key rows \<Longrightarrow> one_lease rows \<Longrightarrow>
   (table_owner rows f t = Some k) = (leased_table rows k = Some t \<and> fst k = f)"
  by (auto simp: table_owner_Some leased_table_Some client_of_def)

lemma lease_end_None: "(lease_end rows k = None) = (leased_table rows k = None)"
  by (simp add: lease_end_def leased_table_find)

text \<open>The rows provide the interface; the statements are those of the code.\<close>

interpretation rows: expiring_store
  "\<lambda>rows. primary_key rows \<and> one_lease rows" leased_table table_owner fst client_of RtTable
  insert_rt_table "\<lambda>(f, i, a). delete_rt_table f i a" lease_end delete_dead_leases
  by unfold_locales
    (auto simp only: table_owner_iff lease_end_None leased_table_insert leased_table_delete
      leased_table_expire primary_key_insert one_lease_insert keys_delete keys_expire split: prod.splits)

section \<open>The C functions over the interface\<close>

definition client_key :: "tas_client_req \<Rightarrow> client_key" where
  "client_key rq = (uint (req_family rq), cstr (req_ifname rq), cstr (req_address rq))"

lemma client_of_row_of [simp]: "client_of (row_of rq t e) = client_key rq"
  by (simp add: client_of_def row_of_def client_key_def)

lemma row_of_fields [simp]:
  "RtTable (row_of rq t e) = sint t" "AddrFamily (row_of rq t e) = uint (req_family rq)"
  "LeaseExpires (row_of rq t e) = c_int e"
  by (simp_all add: row_of_def)

lemma get_table_leased:
  "bind_rc rc = 0 \<Longrightarrow> row_limit rc = None \<Longrightarrow>
   table_allocator_sqlite_get_table rc ctx rq =
     (case leased_table (rt_rows ctx) (client_key rq) of None \<Rightarrow> 0 | Some t \<Rightarrow> word_of_int t)"
  by (simp add: table_allocator_sqlite_get_table_def leased_table_def client_key_def
      split: list.split)

text \<open>Whatever sqlite answers, a table that is found belongs to a row of the client.\<close>

lemma get_table_member:
  assumes "table_allocator_sqlite_get_table rc ctx rq = t" and "t \<noteq> 0"
  shows "\<exists>r \<in> set (rt_rows ctx). client_of r = client_key rq \<and> word_of_int (RtTable r) = t"
proof -
  obtain x xs where *: "deliver (row_limit rc) (select_rt_table (uint (req_family rq))
      (cstr (req_ifname rq)) (cstr (req_address rq)) (rt_rows ctx)) = x # xs"
    and t: "t = word_of_int x"
    using assms by (auto simp: table_allocator_sqlite_get_table_def split: if_splits list.splits)
  have "set (deliver lim ys) \<subseteq> set ys" for lim and ys :: "int list"
    by (cases lim) (auto dest: in_set_takeD)
  then have "x \<in> set (select_rt_table (uint (req_family rq))
      (cstr (req_ifname rq)) (cstr (req_address rq)) (rt_rows ctx))"
    using * by (metis list.set_intros(1) subsetD)
  with t show ?thesis
    by (auto simp: select_rt_table_def is_client_iff client_key_def)
qed

lemma insert_table_cases:
  assumes "table_allocator_sqlite_insert_table rc ctx rq t e = (ok, ctx')"
  shows "ctx' = (if ok then ctx\<lparr>rt_rows := insert_rt_table (row_of rq t e) (rt_rows ctx)\<rparr> else ctx)"
  using assms by (auto simp: table_allocator_sqlite_insert_table_def split: if_splits)

lemma update_lease_cases:
  assumes "table_allocator_sqlite_update_lease rc ctx t f e = (ok, ctx')"
  shows "ctx' = (if ok
    then ctx\<lparr>rt_rows := update_rt_table (sint e) (uint f) (sint t) (rt_rows ctx)\<rparr> else ctx)"
  using assms by (auto simp: table_allocator_sqlite_update_lease_def split: if_splits)

lemma remove_table_cases:
  assumes "table_allocator_sqlite_remove_table rc ctx rq = (ok, ctx')"
  shows "ctx' = (if ok then ctx\<lparr>rt_rows := (case client_key rq of (f, i, a) \<Rightarrow>
    delete_rt_table f i a (rt_rows ctx))\<rparr> else ctx)"
  using assms
  by (auto simp: table_allocator_sqlite_remove_table_def client_key_def split: if_splits)

lemma sql_ok_simps [simp]:
  "bind_rc sql_ok = 0" "tag_rc sql_ok = 0" "step_rc sql_ok = SQLITE_DONE" "row_limit sql_ok = None"
  by (simp_all add: sql_ok_def)

section \<open>Properties\<close>

text \<open>C26: a lease that is stored is found again under its client, which owns the table, the leases
  of all other clients are as before when nobody held the table, and removing it brings the database
  back to the leases it had, with the table owned by nobody.\<close>

theorem insert_get_remove:
  assumes "primary_key (rt_rows ctx)" and "one_lease (rt_rows ctx)"
    and "leased_table (rt_rows ctx) (client_key rq) = None"
    and "table_owner (rt_rows ctx) (uint (req_family rq)) (sint t) = None"
    and "table_allocator_sqlite_insert_table rc ctx rq t e = (True, ctx')"
    and "table_allocator_sqlite_remove_table rc' ctx' rq = (True, ctx'')"
  shows "table_allocator_sqlite_get_table sql_ok ctx' rq = t
    \<and> (\<forall>rq'. client_key rq' \<noteq> client_key rq \<longrightarrow>
         table_allocator_sqlite_get_table sql_ok ctx' rq' = table_allocator_sqlite_get_table sql_ok ctx rq')
    \<and> table_owner (rt_rows ctx') (uint (req_family rq)) (sint t) = Some (client_key rq)
    \<and> leased_table (rt_rows ctx'') = leased_table (rt_rows ctx)
    \<and> table_owner (rt_rows ctx'') (uint (req_family rq)) (sint t) = None"
proof -
  let ?r = "row_of rq t e"
  have inv: "primary_key (rt_rows ctx) \<and> one_lease (rt_rows ctx)" using assms by simp
  have none: "leased_table (rt_rows ctx) (client_of ?r) = None"
    "table_owner (rt_rows ctx) (fst (client_of ?r)) (RtTable ?r) = None"
    using assms(3,4) by (simp_all add: client_key_def)
  have rows': "rt_rows ctx' = insert_rt_table ?r (rt_rows ctx)"
    using insert_table_cases [OF assms(5)] by simp
  have upd: "leased_table (rt_rows ctx') = (leased_table (rt_rows ctx))(client_key rq \<mapsto> sint t)"
    using rows.insert_unowned [OF inv none] rows' by simp
  obtain f i a where key: "client_key rq = (f, i, a)" by (rule prod_cases3)
  have rows'': "rt_rows ctx'' = delete_rt_table f i a (rt_rows ctx')"
    using remove_table_cases [OF assms(6)] by (simp add: key)
  have "leased_table (rt_rows ctx'') = leased_table (rt_rows ctx)"
    using rows.remove_insert [OF inv none] rows' rows'' by (simp add: key)
  moreover have "fst (client_key rq) = uint (req_family rq)" by (simp add: client_key_def)
  moreover have "table_owner (rt_rows ctx') (fst (client_key rq)) (sint t) = Some (client_key rq)"
    using rows.owner_insert [OF inv none(1)] rows' by simp
  moreover have "table_owner (rt_rows ctx'') (fst (client_key rq)) (sint t) = None"
    using rows.owner_remove [OF rows.invar_insert [OF inv none(1)], of "client_key rq" "sint t"] rows' rows'' upd by (simp add: key)
  ultimately show ?thesis by (simp add: get_table_leased upd)
qed

text \<open>C27: a sweep that sqlite serves runs the callback on the dead leases, in the order of the
  table, and leaves exactly the live ones: a client keeps its table if its lease has not ended, and
  otherwise has none, and nobody owns the table it had.\<close>

theorem sweep_keeps_live:
  assumes "bind_rc sel_rc = 0" and "row_limit sel_rc = None"
    and "bind_rc del_rc = 0" and "step_rc del_rc = SQLITE_DONE"
    and "\<And>f t c c'. cb f t c = Inr c' \<Longrightarrow> rt_rows c' = rt_rows c"
    and "table_allocator_sqlite_delete_dead_leases sel_rc del_rc ctx lim cb = Inr (ok, ctx')"
  shows "ok \<and> rt_rows ctx' = filter (\<lambda>r. sint lim < LeaseExpires r) (rt_rows ctx)
    \<and> (\<exists>c. foldR (\<lambda>r. cb (word_of_int (AddrFamily r)) (word_of_int (RtTable r)))
               (filter (\<lambda>r. LeaseExpires r \<le> sint lim) (rt_rows ctx)) ctx = Inr c
           \<and> ctx' = c\<lparr>rt_rows := rt_rows ctx'\<rparr>)
    \<and> (primary_key (rt_rows ctx) \<and> one_lease (rt_rows ctx) \<longrightarrow> (\<forall>k t e. leased_table (rt_rows ctx) k = Some t
         \<and> lease_end (rt_rows ctx) k = Some e \<longrightarrow> (if sint lim < e then leased_table (rt_rows ctx') k = Some t
           else leased_table (rt_rows ctx') k = None \<and> table_owner (rt_rows ctx') (fst k) t = None)))"
proof -
  have foldR_map: "foldR f (map h xs) s = foldR (\<lambda>x. f (h x)) xs s"
    for f :: "int \<times> int \<Rightarrow> tas_ctx \<Rightarrow> tas_ctx res" and h and xs :: "rt_row list" and s
    by (induction xs arbitrary: s) (auto intro!: bindR_cong)
  obtain c where c: "run_check_table cb (select_dead_leases (sint lim) (rt_rows ctx)) ctx = Inr c"
    and ok: "ok" and ctx': "ctx' = c\<lparr>rt_rows := delete_dead_leases (sint lim) (rt_rows c)\<rparr>"
    using assms by (auto simp: table_allocator_sqlite_delete_dead_leases_def res_simps)
  have "rt_rows c = rt_rows ctx"
    using c unfolding run_check_table_def
    by (rule foldR_invariant [where P = "\<lambda>s. rt_rows s = rt_rows ctx"]) (auto dest: assms(5))
  then have rows': "rt_rows ctx' = delete_dead_leases (sint lim) (rt_rows ctx)" by (simp add: ctx')
  have "if sint lim < e then leased_table (rt_rows ctx') k = Some t
      else leased_table (rt_rows ctx') k = None \<and> table_owner (rt_rows ctx') (fst k) t = None"
    if inv: "primary_key (rt_rows ctx) \<and> one_lease (rt_rows ctx)"
      and k: "leased_table (rt_rows ctx) k = Some t" "lease_end (rt_rows ctx) k = Some e" for k t e
    using rows.expire_keeps_live [OF inv k(2), of "sint lim"] rows.expire_frees [OF inv k, of "sint lim"]
      rows.lookup_expire [OF inv, of "sint lim" k] k rows' by (simp add: not_less)
  moreover have "foldR (\<lambda>r. cb (word_of_int (AddrFamily r)) (word_of_int (RtTable r)))
      (filter (\<lambda>r. LeaseExpires r \<le> sint lim) (rt_rows ctx)) ctx = Inr c"
    using c by (simp add: run_check_table_def select_dead_leases_def foldR_map)
  moreover have "rt_rows ctx' = filter (\<lambda>r. sint lim < LeaseExpires r) (rt_rows ctx)" "ctx' = c\<lparr>rt_rows := rt_rows ctx'\<rparr>"
    using rows' ctx' by (simp_all add: delete_dead_leases_def not_le)
  ultimately show ?thesis using ok by blast
qed

section \<open>Witnesses\<close>

text \<open>Two clients of the IPv4 family and a database with a lease for each.\<close>

definition buf :: "nat \<Rightarrow> string \<Rightarrow> string" where
  "buf n s = s @ zero_buf (n - length s)"

definition eth1_req :: tas_client_req where
  "eth1_req = zero_req\<lparr>req_ifname := buf 16 ''eth1'', req_address := buf 46 ''10.0.0.2'',
     req_family := AF_INET, req_ver := 1\<rparr>"

definition wwan0_req :: tas_client_req where
  "wwan0_req = zero_req\<lparr>req_ifname := buf 16 ''wwan0'', req_address := buf 46 ''10.0.0.3'',
     req_family := AF_INET, req_ver := 1\<rparr>"

lemma cstr_buf [simp]: "NUL \<notin> set s \<Longrightarrow> cstr (buf n s) = s"
  by (simp add: buf_def cstr_padded)

lemma eth1_key [simp]: "client_key eth1_req = (2, ''eth1'', ''10.0.0.2'')"
  "client_key wwan0_req = (2, ''wwan0'', ''10.0.0.3'')"
  "req_family eth1_req = AF_INET" "req_family wwan0_req = AF_INET"
  by (simp_all add: client_key_def eth1_req_def wwan0_req_def AF_INET_def)

theorem insert_get_remove_witness:
  "\<exists>ctx' ctx''. table_allocator_sqlite_insert_table sql_ok (calloc_ctx []) eth1_req 10000 500 = (True, ctx')
    \<and> table_allocator_sqlite_remove_table sql_ok ctx' eth1_req = (True, ctx'')
    \<and> table_allocator_sqlite_get_table sql_ok ctx' eth1_req = 10000
    \<and> table_allocator_sqlite_get_table sql_ok ctx' wwan0_req
        = table_allocator_sqlite_get_table sql_ok (calloc_ctx []) wwan0_req"
proof -
  obtain ctx' where i: "table_allocator_sqlite_insert_table sql_ok (calloc_ctx []) eth1_req 10000 500
      = (True, ctx')"
    by (simp add: table_allocator_sqlite_insert_table_def)
  obtain ctx'' where r: "table_allocator_sqlite_remove_table sql_ok ctx' eth1_req = (True, ctx'')"
    by (simp add: table_allocator_sqlite_remove_table_def)
  have none: "rt_rows (calloc_ctx []) = []" by (simp add: calloc_ctx_def)
  have "client_key wwan0_req \<noteq> client_key eth1_req" by simp
  then show ?thesis
    using insert_get_remove [OF _ _ _ _ i r] i r
    by (simp add: none primary_key_def one_lease_def leased_table_None table_owner_None)
qed

definition two_leases :: "rt_row list" where
  "two_leases = [row_of eth1_req 10000 500, row_of wwan0_req 10001 900]"

theorem sweep_keeps_live_witness:
  "\<exists>ctx'. table_allocator_sqlite_delete_dead_leases sql_ok sql_ok (calloc_ctx two_leases) 600
      (\<lambda>f t c. Inr c) = Inr (True, ctx')
    \<and> rt_rows ctx' = filter (\<lambda>r. sint (600 :: u32) < LeaseExpires r) (rt_rows (calloc_ctx two_leases))"
proof -
  have "foldR (\<lambda>(t, f). Inr) xs s = Inr s" for xs :: "(int \<times> int) list" and s :: tas_ctx
    by (induction xs) auto
  then obtain ctx' where "table_allocator_sqlite_delete_dead_leases sql_ok sql_ok (calloc_ctx two_leases)
      600 (\<lambda>f t c. Inr c) = Inr (True, ctx')"
    by (simp add: table_allocator_sqlite_delete_dead_leases_def run_check_table_def)
  with sweep_keeps_live [OF _ _ _ _ _ this] show ?thesis by simp
qed

end
