(* ===== verification/Server_Clients.thy ===== *)
theory Server_Clients
  imports Table_Map Lease_Db
begin

text \<open>
  The request handlers of \<^verbatim>\<open>table_allocator_server_clients.c\<close>: a lease request, a release,
  and the sweep of dead leases, over the table map and the lease database. The clock and the
  answers of sqlite are arguments. The invariant \<open>srv_inv\<close> relates the two: no live lease has
  a free bit; \<open>synced\<close> adds that the taken bits are exactly the leased tables, which makes
  the handlers refine a map from clients to tables.
\<close>

section \<open>Handlers\<close>

definition release_dead_lease :: check_table_cb where
  "release_dead_lease addr_family rt_table ctx =
     bindR (is_table_free ctx addr_family rt_table) (\<lambda>free.
       if \<not> free then release_table ctx addr_family rt_table else Inr ctx)"

text \<open>\<open>clock_gettime\<close> either fails (\<open>None\<close>) or gives the seconds of the monotonic clock.\<close>

definition table_allocator_server_clients_delete_dead_leases ::
  "int option \<Rightarrow> sql_rc \<Rightarrow> sql_rc \<Rightarrow> tas_ctx \<Rightarrow> tas_ctx res" where
  "table_allocator_server_clients_delete_dead_leases clock sel_rc del_rc ctx =
     (case clock of
        None \<Rightarrow> Inr ctx
      | Some tv_sec \<Rightarrow>
          bindR (table_allocator_sqlite_delete_dead_leases sel_rc del_rc ctx (word_of_int tv_sec)
                   release_dead_lease)
            (\<lambda>(ok, ctx'). Inr ctx'))"

record req_env =
  clock :: "int option"
  get_rc :: sql_rc
  upd_rc :: sql_rc
  ins_rc :: sql_rc

text \<open>The \<open>switch\<close> on the family at the head of \<open>handle_req\<close>.\<close>

definition family_served :: "tas_ctx \<Rightarrow> u8 \<Rightarrow> bool" where
  "family_served ctx fam =
     (if fam = AF_INET then tables_inet ctx \<noteq> None
      else if fam = AF_INET6 then tables_inet6 ctx \<noteq> None
      else if fam = AF_UNSPEC then tables_unspec ctx \<noteq> None
      else False)"

text \<open>The result is the table and the end of the lease, or \<open>None\<close> for \<open>return 0\<close>.\<close>

definition table_allocator_server_clients_handle_req ::
  "req_env \<Rightarrow> tas_ctx \<Rightarrow> tas_client_req \<Rightarrow> ((u32 \<times> u32) option \<times> tas_ctx) res" where
  "table_allocator_server_clients_handle_req env ctx rq =
     (let fam = req_family rq in
      if \<not> family_served ctx fam then Inr (None, ctx)
      else case clock env of
        None \<Rightarrow> Inr (None, ctx)
      | Some tv_sec \<Rightarrow>
          let lease_sec = tv_sec + uint (table_timeout ctx);
              rt_table = table_allocator_sqlite_get_table (get_rc env) ctx rq in
          if rt_table \<noteq> 0 then
            bindR (is_table_free ctx fam rt_table) (\<lambda>free.
            bindR (if free then set_table ctx fam rt_table else Inr ctx) (\<lambda>ctx1.
              case table_allocator_sqlite_update_lease (upd_rc env) ctx1 rt_table fam
                     (word_of_int lease_sec) of
                (ok, ctx2) \<Rightarrow>
                  if \<not> ok then Inr (None, ctx2)
                  else Inr (Some (rt_table, word_of_int lease_sec), ctx2)))
          else
            bindR (allocate_table ctx fam) (\<lambda>(rt, ctx1).
              if rt = 0 then Inr (None, ctx1)
              else let rt_table = table_offset ctx1 + (rt - 1) in
                case table_allocator_sqlite_insert_table (ins_rc env) ctx1 rq rt_table lease_sec of
                  (ok, ctx2) \<Rightarrow>
                    if \<not> ok then bindR (release_table ctx2 fam rt_table) (\<lambda>ctx3. Inr (None, ctx3))
                    else Inr (Some (rt_table, word_of_int lease_sec), ctx2)))"

definition table_allocator_server_clients_handle_release ::
  "sql_rc \<Rightarrow> sql_rc \<Rightarrow> tas_ctx \<Rightarrow> tas_client_req \<Rightarrow> (bool \<times> tas_ctx) res" where
  "table_allocator_server_clients_handle_release sel_rc del_rc ctx rq =
     (let rt_table = table_allocator_sqlite_get_table sel_rc ctx rq in
      if rt_table = 0 then Inr (True, ctx)
      else case table_allocator_sqlite_remove_table del_rc ctx rq of
        (ok, ctx1) \<Rightarrow>
          if ok then bindR (release_table ctx1 (req_family rq) rt_table) (\<lambda>ctx2. Inr (True, ctx2))
          else Inr (False, ctx1))"

definition table_allocator_server_clients_set_table :: check_table_cb where
  "table_allocator_server_clients_set_table addr_family rt_table ctx =
     set_table ctx addr_family rt_table"

section \<open>The server invariant\<close>

definition valid_family :: "u8 \<Rightarrow> bool" where
  "valid_family f \<longleftrightarrow> f = AF_INET \<or> f = AF_INET6 \<or> f = AF_UNSPEC"

definition row_fam :: "rt_row \<Rightarrow> u8" where "row_fam r = word_of_int (AddrFamily r)"
definition row_tbl :: "rt_row \<Rightarrow> u32" where "row_tbl r = word_of_int (RtTable r)"
definition row_id :: "tas_ctx \<Rightarrow> rt_row \<Rightarrow> nat" where "row_id ctx r = table_id ctx (row_tbl r)"

text \<open>
  A row the server can have written under its configuration: a family that is served, a table
  inside the map, and integers of the width of the columns.
\<close>

definition row_ok :: "tas_ctx \<Rightarrow> rt_row \<Rightarrow> bool" where
  "row_ok ctx r \<longleftrightarrow>
     uint (row_fam r) = AddrFamily r \<and> valid_family (row_fam r) \<and> family_map ctx (row_fam r) \<noteq> None
     \<and> sint (row_tbl r) = RtTable r \<and> row_tbl r \<noteq> 0 \<and> row_id ctx r < capacity ctx"

definition srv_wf :: "tas_ctx \<Rightarrow> bool" where
  "srv_wf ctx \<longleftrightarrow> geometry ctx \<and> (\<forall>r \<in> set (rt_rows ctx). row_ok ctx r) \<and> primary_key (rt_rows ctx)"

text \<open>Every lease that is alive after \<open>now\<close> has its bit taken.\<close>

definition live_taken :: "int \<Rightarrow> tas_ctx \<Rightarrow> bool" where
  "live_taken now ctx \<longleftrightarrow>
     (\<forall>r \<in> set (rt_rows ctx). now < LeaseExpires r \<longrightarrow> \<not> ctx_free ctx (row_fam r) (row_id ctx r))"

definition srv_inv :: "int \<Rightarrow> tas_ctx \<Rightarrow> bool" where
  "srv_inv now ctx \<longleftrightarrow> srv_wf ctx \<and> live_taken now ctx"

lemma rt_rows_frame [simp]:
  "family_map (ctx\<lparr>rt_rows := x\<rparr>) = family_map ctx"
  "ctx_free (ctx\<lparr>rt_rows := x\<rparr>) = ctx_free ctx"
  "capacity (ctx\<lparr>rt_rows := x\<rparr>) = capacity ctx"
  "table_id (ctx\<lparr>rt_rows := x\<rparr>) = table_id ctx"
  "geometry (ctx\<lparr>rt_rows := x\<rparr>) = geometry ctx"
  "row_id (ctx\<lparr>rt_rows := x\<rparr>) = row_id ctx"
  "row_ok (ctx\<lparr>rt_rows := x\<rparr>) = row_ok ctx"
  by (simp_all add: fun_eq_iff family_map_def ctx_free_def capacity_def table_id_def geometry_def
      row_id_def row_ok_def)

lemma row_toggle_frame [simp]:
  "row_id (toggle_id ctx f i) = row_id ctx" "row_ok (toggle_id ctx f i) = row_ok ctx"
  by (simp_all add: fun_eq_iff row_id_def row_ok_def)

lemma srv_wf_toggle [simp]: "srv_wf ctx \<Longrightarrow> srv_wf (toggle_id ctx f i)"
  by (simp add: srv_wf_def)

lemma served_valid: "family_served ctx f \<Longrightarrow> valid_family f \<and> family_map ctx f \<noteq> None"
  by (auto simp: family_served_def valid_family_def family_map_def af_defs split: if_splits)

lemma valid_same_map: "valid_family f \<Longrightarrow> valid_family g \<Longrightarrow> same_map f g = (f = g)"
  by (auto simp: valid_family_def same_map_def)

lemma table_id_inject: "table_id ctx s = table_id ctx t \<Longrightarrow> s = t"
  by (simp add: table_id_def word_unat_eq_iff [symmetric])

lemma row_eqI:
  assumes "srv_wf ctx" and "r \<in> set (rt_rows ctx)" and "q \<in> set (rt_rows ctx)"
    and "row_fam r = row_fam q" and "row_id ctx r = row_id ctx q"
  shows "r = q"
proof -
  have "row_tbl r = row_tbl q" using assms(5) table_id_inject by (simp add: row_id_def)
  then have "RtTable r = RtTable q" "AddrFamily r = AddrFamily q"
    using assms unfolding srv_wf_def row_ok_def by metis+
  then show ?thesis
    using assms(1-3) by (auto simp: srv_wf_def primary_key_def distinct_map inj_on_def)
qed

lemma live_taken_toggle:
  assumes "srv_wf ctx" and "live_taken now ctx"
    and "valid_family f" and "family_map ctx f \<noteq> None" and "i < capacity ctx"
    and "ctx_free ctx f i \<or>
      (\<forall>r \<in> set (rt_rows ctx). now < LeaseExpires r \<longrightarrow> \<not> (row_fam r = f \<and> row_id ctx r = i))"
  shows "live_taken now (toggle_id ctx f i)"
  unfolding live_taken_def
proof (intro ballI impI)
  fix r assume r: "r \<in> set (rt_rows (toggle_id ctx f i))" and live: "now < LeaseExpires r"
  then have "valid_family (row_fam r)" and taken: "\<not> ctx_free ctx (row_fam r) (row_id ctx r)"
    using assms(1,2) by (auto simp: srv_wf_def row_ok_def live_taken_def)
  then have "same_map f (row_fam r) = (f = row_fam r)"
    using assms(3) by (simp add: valid_same_map)
  with assms r live taken
  show "\<not> ctx_free (toggle_id ctx f i) (row_fam r) (row_id (toggle_id ctx f i) r)"
    by (auto simp: ctx_free_toggle srv_wf_def)
qed

lemma row_ok_row_of:
  assumes "valid_family (req_family rq)" and "family_map ctx (req_family rq) \<noteq> None"
    and "t \<noteq> 0" and "table_id ctx t < capacity ctx"
  shows "row_ok ctx (row_of rq t e)"
    and "row_fam (row_of rq t e) = req_family rq" and "row_tbl (row_of rq t e) = t"
  using assms by (simp_all add: row_ok_def row_fam_def row_tbl_def row_id_def)

text \<open>Where a freshly allocated identifier ends up among the table numbers.\<close>

lemma fresh_table:
  assumes "geometry ctx" and "i < unat (num_tables ctx)" and "unat (of_nat (Suc i) :: u32) = Suc i"
  defines "t \<equiv> table_offset ctx + (of_nat (Suc i) - 1)"
  shows "table_id ctx t = i" and "t \<noteq> 0" and "table_offset ctx \<le> t"
    and "unat t = unat (table_offset ctx) + i"
proof -
  have i: "unat (of_nat (Suc i) - 1 :: u32) = i"
    using assms(3) by (metis Zero_not_Suc diff_Suc_1 unat_0 unat_minus_one)
  then show "table_id ctx t = i" by (simp add: table_id_def t_def)
  have "unat (table_offset ctx) + i < 2 ^ 32"
    using assms(1,2) by (simp add: geometry_def)
  then show t: "unat t = unat (table_offset ctx) + i"
    unfolding t_def using i by (subst unat_word_ariths(1)) simp
  then show "table_offset ctx \<le> t" by (simp add: word_le_nat_alt)
  have "0 < unat (table_offset ctx)"
    using assms(1) by (simp add: geometry_def word_less_nat_alt)
  with t show "t \<noteq> 0" by (metis add_is_0 less_numeral_extra(3) unat_0)
qed

text \<open>
  The outcomes of a lease request on a well-formed context: refused before anything happens,
  served from the database (with or without the update), no table free, insertion failed,
  granted.
\<close>

lemma handle_req_cases:
  assumes "srv_wf ctx"
  obtains
    (refused) "table_allocator_server_clients_handle_req env ctx rq = Inr (None, ctx)"
      "\<not> family_served ctx (req_family rq) \<or> clock env = None"
  | (again) now r ctx1 ctx2 ok where "family_served ctx (req_family rq)" "clock env = Some now"
      "r \<in> set (rt_rows ctx)" "client_of r = client_key rq" "row_fam r = req_family rq"
      "table_allocator_sqlite_get_table (get_rc env) ctx rq = row_tbl r"
      "ctx1 = (if ctx_free ctx (row_fam r) (row_id ctx r)
               then toggle_id ctx (row_fam r) (row_id ctx r) else ctx)"
      "\<not> ctx_free ctx1 (row_fam r) (row_id ctx r)"
      "table_allocator_sqlite_update_lease (upd_rc env) ctx1 (row_tbl r) (req_family rq)
         (word_of_int (now + uint (table_timeout ctx))) = (ok, ctx2)"
      "table_allocator_server_clients_handle_req env ctx rq =
         Inr (if ok then Some (row_tbl r, word_of_int (now + uint (table_timeout ctx))) else None, ctx2)"
  | (full) now ctx1 where "family_served ctx (req_family rq)" "clock env = Some now"
      "table_allocator_sqlite_get_table (get_rc env) ctx rq = 0"
      "\<forall>i < unat (num_tables ctx). \<not> ctx_free ctx (req_family rq) i"
      "ctx1 = ctx \<or> (\<exists>i. unat (num_tables ctx) \<le> i \<and> i < capacity ctx \<and>
         ctx_free ctx (req_family rq) i \<and> ctx1 = toggle_id ctx (req_family rq) i)"
      "table_allocator_server_clients_handle_req env ctx rq = Inr (None, ctx1)"
  | (fresh) now i t ctx1 ctx2 ok where "family_served ctx (req_family rq)" "clock env = Some now"
      "table_allocator_sqlite_get_table (get_rc env) ctx rq = 0"
      "i < unat (num_tables ctx)" "i < capacity ctx" "ctx_free ctx (req_family rq) i"
      "\<forall>j < i. \<not> ctx_free ctx (req_family rq) j"
      "table_id ctx t = i" "t \<noteq> 0" "unat t = unat (table_offset ctx) + i"
      "ctx1 = toggle_id ctx (req_family rq) i"
      "table_allocator_sqlite_insert_table (ins_rc env) ctx1 rq t (now + uint (table_timeout ctx))
         = (ok, ctx2)"
      "table_allocator_server_clients_handle_req env ctx rq =
         Inr (if ok then (Some (t, word_of_int (now + uint (table_timeout ctx))), ctx2)
              else (None, toggle_id ctx1 (req_family rq) i))"
proof (cases "family_served ctx (req_family rq) \<and> clock env \<noteq> None")
  case False
  then have "table_allocator_server_clients_handle_req env ctx rq = Inr (None, ctx)"
    by (auto simp: table_allocator_server_clients_handle_req_def Let_def)
  with False refused show thesis by blast
next
  case True
  then obtain now where served: "family_served ctx (req_family rq)" and clk: "clock env = Some now"
    by blast
  have geo: "geometry ctx" using assms by (simp add: srv_wf_def)
  have fam: "family_map ctx (req_family rq) \<noteq> None" using served_valid [OF served] by simp
  note def = table_allocator_server_clients_handle_req_def
  show thesis
  proof (cases "table_allocator_sqlite_get_table (get_rc env) ctx rq = 0")
    case False
    then obtain r where r: "r \<in> set (rt_rows ctx)" "client_of r = client_key rq"
        "row_tbl r = table_allocator_sqlite_get_table (get_rc env) ctx rq"
      using get_table_member by (fastforce simp: row_tbl_def)
    then have f: "row_fam r = req_family rq"
      by (simp add: client_of_def client_key_def row_fam_def)
    have cap: "row_id ctx r < capacity ctx"
      using assms r(1) by (simp add: srv_wf_def row_ok_def)
    define ctx1 where "ctx1 = (if ctx_free ctx (row_fam r) (row_id ctx r)
      then toggle_id ctx (row_fam r) (row_id ctx r) else ctx)"
    have taken: "\<not> ctx_free ctx1 (row_fam r) (row_id ctx r)"
      using geo fam cap by (simp add: ctx1_def ctx_free_toggle f same_map_def)
    obtain ok ctx2 where upd: "table_allocator_sqlite_update_lease (upd_rc env) ctx1 (row_tbl r)
        (req_family rq) (word_of_int (now + uint (table_timeout ctx))) = (ok, ctx2)"
      by fastforce
    have "table_allocator_server_clients_handle_req env ctx rq =
        Inr (if ok then Some (row_tbl r, word_of_int (now + uint (table_timeout ctx))) else None, ctx2)"
      using False served clk upd r(3) cap
      by (simp add: def Let_def is_table_free_eq [OF geo fam] set_table_eq [OF geo fam] f
          ctx1_def row_id_def split: if_splits)
    with r f served clk taken upd again ctx1_def show thesis by simp
  next
    case none: True
    from geo fam show thesis
    proof (cases rule: allocate_table_cases)
      case (none ctx')
      with served clk \<open>table_allocator_sqlite_get_table (get_rc env) ctx rq = 0\<close>
      have "table_allocator_server_clients_handle_req env ctx rq = Inr (None, ctx')"
        by (simp add: def Let_def)
      with full served clk none \<open>table_allocator_sqlite_get_table (get_rc env) ctx rq = 0\<close>
      show thesis by blast
    next
      case (some i)
      define t where "t = table_offset ctx + (of_nat (Suc i) - 1)"
      note t = fresh_table [OF geo some(2,6), folded t_def]
      let ?ctx1 = "toggle_id ctx (req_family rq) i"
      obtain ok ctx2 where ins: "table_allocator_sqlite_insert_table (ins_rc env) ?ctx1 rq t
          (now + uint (table_timeout ctx)) = (ok, ctx2)"
        by fastforce
      have ctx2: "\<not> ok \<Longrightarrow> ctx2 = ?ctx1" using insert_table_cases [OF ins] by simp
      have rel: "release_table ?ctx1 (req_family rq) t = Inr (toggle_id ?ctx1 (req_family rq) i)"
        using release_table_eq [of ?ctx1 "req_family rq" t] geo fam some(3) t(1) by simp
      have "(of_nat (Suc i) :: u32) \<noteq> 0" using some(6) by (metis Zero_not_Suc unat_0)
      then have "table_allocator_server_clients_handle_req env ctx rq =
          Inr (if ok then (Some (t, word_of_int (now + uint (table_timeout ctx))), ctx2)
               else (None, toggle_id ?ctx1 (req_family rq) i))"
        using none served clk some(1) ins ctx2 rel
        by (simp add: def Let_def t_def [symmetric] del: of_nat_Suc)
      with fresh served clk none some t ins show thesis by blast
    qed
  qed
qed

section \<open>Preservation\<close>

lemma row_ok_lease: "row_ok ctx (r\<lparr>LeaseExpires := e\<rparr>) = row_ok ctx r"
  by (simp add: row_ok_def row_fam_def row_tbl_def row_id_def)

lemma srv_wf_update_lease:
  assumes "srv_wf ctx" and "table_allocator_sqlite_update_lease rc ctx t f e = (ok, ctx')"
  shows "srv_wf ctx'"
proof (cases ok)
  case False
  with update_lease_cases [OF assms(2)] assms(1) show ?thesis by simp
next
  case True
  have "row_ok ctx r" if "r \<in> set (update_rt_table (sint e) (uint f) (sint t) (rt_rows ctx))" for r
    using that assms(1) by (auto simp: update_rt_table_def srv_wf_def row_ok_lease)
  with True update_lease_cases [OF assms(2)] assms(1) show ?thesis
    by (simp add: srv_wf_def)
qed

text \<open>Extending the lease of a table whose bit is taken.\<close>

lemma live_taken_update_lease:
  assumes "srv_wf ctx" and "live_taken now ctx" and "r \<in> set (rt_rows ctx)"
    and "\<not> ctx_free ctx (row_fam r) (row_id ctx r)"
    and "table_allocator_sqlite_update_lease rc ctx (row_tbl r) (row_fam r) e = (ok, ctx')"
  shows "live_taken now ctx'"
proof (cases ok)
  case False
  with update_lease_cases [OF assms(5)] assms(2) show ?thesis by simp
next
  case True
  have ok: "sint (row_tbl q) = RtTable q \<and> uint (row_fam q) = AddrFamily q"
    if "q \<in> set (rt_rows ctx)" for q
    using assms(1) that by (auto simp: srv_wf_def row_ok_def)
  have q: "\<not> ctx_free ctx (row_fam q) (row_id ctx q)"
    if "q \<in> set (rt_rows ctx)" "AddrFamily q = uint (row_fam r)" "RtTable q = sint (row_tbl r)" for q
  proof -
    have "q = r" using that ok [OF that(1)] ok [OF assms(3)]
      by (intro row_eqI [OF assms(1) that(1) assms(3)]) (simp_all add: row_fam_def row_tbl_def row_id_def)
    with assms(4) show ?thesis by simp
  qed
  have same: "row_fam (p\<lparr>LeaseExpires := e'\<rparr>) = row_fam p" "row_id c (p\<lparr>LeaseExpires := e'\<rparr>) = row_id c p"
    for c p e' by (simp_all add: row_fam_def row_id_def row_tbl_def)
  show ?thesis
    using True update_lease_cases [OF assms(5)] assms(2) q
    by (auto simp: live_taken_def update_rt_table_def same split: if_splits)
qed

lemma row_ok_fresh:
  assumes "family_served ctx (req_family rq)" and "table_id ctx t = i" and "t \<noteq> 0" and "i < capacity ctx"
  shows "row_ok ctx (row_of rq t e)"
  using assms served_valid [OF assms(1)] by (intro row_ok_row_of) auto

lemma srv_wf_insert:
  assumes "srv_wf ctx" and "row_ok ctx (row_of rq t e)"
    and "table_allocator_sqlite_insert_table rc ctx rq t e = (ok, ctx')"
  shows "srv_wf ctx'"
  using assms insert_table_cases [OF assms(3)]
  by (auto simp: srv_wf_def set_insert_rt_table primary_key_insert)

lemma live_taken_insert:
  assumes "live_taken now ctx" and "\<not> ctx_free ctx (req_family rq) (table_id ctx t)"
    and "table_allocator_sqlite_insert_table rc ctx rq t e = (ok, ctx')"
  shows "live_taken now ctx'"
  using assms(1,2) insert_table_cases [OF assms(3)]
  by (auto simp: live_taken_def set_insert_rt_table row_fam_def row_id_def row_tbl_def)

text \<open>A lease request never stops the server and keeps its invariant, whatever sqlite and the
  clock answer.\<close>

lemma handle_req_preserves:
  assumes "srv_inv now ctx"
  shows "\<exists>res ctx'. table_allocator_server_clients_handle_req env ctx rq = Inr (res, ctx')
    \<and> srv_inv now ctx'"
proof -
  from assms have wf: "srv_wf ctx" and live: "live_taken now ctx" by (simp_all add: srv_inv_def)
  from wf show ?thesis
  proof (cases rule: handle_req_cases [where env = env and rq = rq])
    case refused
    with assms show ?thesis by simp
  next
    case (again tv r ctx1 ctx2 ok)
    have row: "valid_family (row_fam r)" "family_map ctx (row_fam r) \<noteq> None" "row_id ctx r < capacity ctx"
      using wf again(3) by (auto simp: srv_wf_def row_ok_def)
    have "live_taken now ctx1"
      using live_taken_toggle [OF wf live row] live by (simp add: again(7))
    moreover have "srv_wf ctx1" "r \<in> set (rt_rows ctx1)" "row_id ctx1 = row_id ctx"
      using wf again(3) by (simp_all add: again(7))
    ultimately have "srv_inv now ctx2"
      using again(5,8,9) srv_wf_update_lease live_taken_update_lease
      unfolding srv_inv_def by metis
    with again(10) show ?thesis by simp
  next
    case (full tv ctx1)
    have "live_taken now (toggle_id ctx (req_family rq) i)"
      if "ctx_free ctx (req_family rq) i" "i < capacity ctx" for i
      using live_taken_toggle [OF wf live _ _ that(2)] served_valid [OF full(1)] that(1) by blast
    then have "live_taken now ctx1 \<and> srv_wf ctx1"
      using full(5) wf live by auto
    with full(6) show ?thesis by (simp add: srv_inv_def)
  next
    case (fresh tv i t ctx1 ctx2 ok)
    have fam: "valid_family (req_family rq)" "family_map ctx (req_family rq) \<noteq> None"
      using served_valid [OF fresh(1)] by simp_all
    have l1: "live_taken now ctx1"
      using live_taken_toggle [OF wf live fam fresh(5)] fresh(6,11) by simp
    have geo: "geometry ctx" using wf by (simp add: srv_wf_def)
    have taken: "\<not> ctx_free ctx1 (req_family rq) i"
      using ctx_free_toggle [OF geo fam(2) fresh(5)] fresh(6,11) by (simp add: same_map_def)
    have wf1: "srv_wf ctx1" using wf fresh(11) by simp
    show ?thesis
    proof (cases ok)
      case True
      have "row_ok ctx1 (row_of rq t (tv + uint (table_timeout ctx)))"
        using row_ok_fresh [OF fresh(1,8,9,5)] by (simp add: fresh(11))
      then have "srv_wf ctx2" using wf1 fresh(12) srv_wf_insert by blast
      moreover have "live_taken now ctx2"
        using live_taken_insert [OF l1 _ fresh(12)] taken fresh(8,11) by simp
      ultimately show ?thesis using fresh(13) True by (simp add: srv_inv_def)
    next
      case False
      have "\<forall>r \<in> set (rt_rows ctx1). now < LeaseExpires r \<longrightarrow> \<not> (row_fam r = req_family rq \<and> row_id ctx1 r = i)"
        using live fresh(6) by (auto simp: fresh(11) live_taken_def)
      then have "live_taken now (toggle_id ctx1 (req_family rq) i)"
        using fam fresh(5) by (intro live_taken_toggle [OF wf1 l1]) (auto simp: fresh(11))
      with wf1 fresh(13) False show ?thesis by (simp add: srv_inv_def)
    qed
  qed
qed

lemma srv_inv_fewer_rows:
  assumes "srv_inv now ctx" and "set rows \<subseteq> set (rt_rows ctx)" and "primary_key rows"
  shows "srv_inv now (ctx\<lparr>rt_rows := rows\<rparr>)"
  using assms by (auto simp: srv_inv_def srv_wf_def live_taken_def)

lemma srv_inv_delete:
  assumes "srv_inv now ctx"
  shows "srv_inv now (ctx\<lparr>rt_rows := delete_rt_table f i a (rt_rows ctx)\<rparr>)"
  using assms
  by (intro srv_inv_fewer_rows) (auto simp: set_delete_rt_table keys_delete srv_inv_def srv_wf_def)

text \<open>The outcomes of a release: nothing found, found but not deleted, deleted and toggled.\<close>

lemma handle_release_cases:
  assumes "srv_wf ctx"
  obtains
    (absent) "table_allocator_server_clients_handle_release sel_rc del_rc ctx rq = Inr (True, ctx)"
      "table_allocator_sqlite_get_table sel_rc ctx rq = 0"
  | (failed) "table_allocator_server_clients_handle_release sel_rc del_rc ctx rq = Inr (False, ctx)"
      "table_allocator_sqlite_get_table sel_rc ctx rq \<noteq> 0"
  | (released) r ctx1 where "r \<in> set (rt_rows ctx)" "client_of r = client_key rq"
      "row_fam r = req_family rq" "table_allocator_sqlite_get_table sel_rc ctx rq = row_tbl r"
      "ctx1 = ctx\<lparr>rt_rows := (case client_key rq of (f, i, a) \<Rightarrow> delete_rt_table f i a (rt_rows ctx))\<rparr>"
      "table_allocator_server_clients_handle_release sel_rc del_rc ctx rq =
         Inr (True, toggle_id ctx1 (row_fam r) (row_id ctx r))"
proof (cases "table_allocator_sqlite_get_table sel_rc ctx rq = 0")
  case True
  with absent show thesis by (simp add: table_allocator_server_clients_handle_release_def)
next
  case False
  then obtain r where r: "r \<in> set (rt_rows ctx)" "client_of r = client_key rq"
      "row_tbl r = table_allocator_sqlite_get_table sel_rc ctx rq"
    using get_table_member by (fastforce simp: row_tbl_def)
  then have f: "row_fam r = req_family rq"
    by (simp add: client_of_def client_key_def row_fam_def)
  obtain ok ctx1 where rem: "table_allocator_sqlite_remove_table del_rc ctx rq = (ok, ctx1)"
    by fastforce
  show thesis
  proof (cases ok)
    case True
    have ctx1: "ctx1 = ctx\<lparr>rt_rows := (case client_key rq of (f, i, a) \<Rightarrow> delete_rt_table f i a (rt_rows ctx))\<rparr>"
      using remove_table_cases [OF rem] True by simp
    have row: "geometry ctx" "family_map ctx (row_fam r) \<noteq> None" "row_id ctx r < capacity ctx"
      using assms r(1) by (auto simp: srv_wf_def row_ok_def)
    then have "release_table ctx1 (row_fam r) (row_tbl r) = Inr (toggle_id ctx1 (row_fam r) (row_id ctx r))"
      using release_table_eq [of ctx1 "row_fam r" "row_tbl r"] ctx1 by (simp add: row_id_def)
    then have "table_allocator_server_clients_handle_release sel_rc del_rc ctx rq =
        Inr (True, toggle_id ctx1 (row_fam r) (row_id ctx r))"
      using False True rem r(3) f by (simp add: table_allocator_server_clients_handle_release_def Let_def)
    then show thesis using released r f ctx1 by metis
  next
    case fail: False
    with remove_table_cases [OF rem] rem False failed show thesis
      by (simp add: table_allocator_server_clients_handle_release_def Let_def)
  qed
qed

lemma handle_release_preserves:
  assumes "srv_inv now ctx"
  shows "\<exists>ok ctx'. table_allocator_server_clients_handle_release sel_rc del_rc ctx rq = Inr (ok, ctx')
    \<and> srv_inv now ctx'"
proof -
  from assms have wf: "srv_wf ctx" by (simp add: srv_inv_def)
  then show ?thesis
  proof (cases rule: handle_release_cases [where sel_rc = sel_rc and del_rc = del_rc and rq = rq])
    case absent
    with assms show ?thesis by auto
  next
    case failed
    with assms show ?thesis by auto
  next
    case (released r ctx1)
    have inv1: "srv_inv now ctx1"
      using srv_inv_delete [OF assms] by (cases "client_key rq") (simp add: released(5))
    have gone: "\<not> (row_fam q = row_fam r \<and> row_id ctx1 q = row_id ctx r)" if "q \<in> set (rt_rows ctx1)" for q
    proof
      assume eq: "row_fam q = row_fam r \<and> row_id ctx1 q = row_id ctx r"
      from that have q: "q \<in> set (rt_rows ctx)" "client_of q \<noteq> client_key rq"
        by (cases "client_key rq"; simp add: released(5) set_delete_rt_table)+
      then have "q = r" using eq by (intro row_eqI [OF wf q(1) released(1)]) (simp_all add: released(5))
      with q released(2) show False by simp
    qed
    have row: "valid_family (row_fam r)" "family_map ctx1 (row_fam r) \<noteq> None" "row_id ctx r < capacity ctx1"
      using wf released(1) by (auto simp: srv_wf_def row_ok_def released(5))
    have "srv_inv now (toggle_id ctx1 (row_fam r) (row_id ctx r))"
      using inv1 gone live_taken_toggle [OF _ _ row] by (simp add: srv_inv_def)
    with released(6) show ?thesis by auto
  qed
qed

text \<open>
  The monotonic clock counts seconds since boot; \<open>clock_ok\<close> bounds it so that the 32-bit
  columns of the database hold the end of a lease (68 years).
\<close>

definition clock_ok :: "int \<Rightarrow> bool" where
  "clock_ok now \<longleftrightarrow> 0 \<le> now \<and> now + 65535 < 2 ^ 31"

lemma clock_ok_sint: "clock_ok now \<Longrightarrow> sint (word_of_int now :: u32) = now"
  by (simp add: clock_ok_def sint_u32_small)

lemma release_dead_lease_step:
  assumes "srv_inv now ctx" and "r \<in> set (rt_rows ctx)" and "LeaseExpires r \<le> now"
  shows "\<exists>ctx'. release_dead_lease (row_fam r) (row_tbl r) ctx = Inr ctx'
    \<and> srv_inv now ctx' \<and> rt_rows ctx' = rt_rows ctx \<and> ctx_free ctx' (row_fam r) (row_id ctx r)
    \<and> (ctx' = ctx \<or> ctx' = toggle_id ctx (row_fam r) (row_id ctx r))"
proof -
  from assms have wf: "srv_wf ctx" and live: "live_taken now ctx" by (simp_all add: srv_inv_def)
  then have row: "valid_family (row_fam r)" "family_map ctx (row_fam r) \<noteq> None" "row_id ctx r < capacity ctx"
    and geo: "geometry ctx"
    using assms(2) by (auto simp: srv_wf_def row_ok_def)
  have other: "\<forall>q \<in> set (rt_rows ctx). now < LeaseExpires q \<longrightarrow> \<not> (row_fam q = row_fam r \<and> row_id ctx q = row_id ctx r)"
    using row_eqI [OF wf _ assms(2)] assms(3) by fastforce
  have free: "is_table_free ctx (row_fam r) (row_tbl r) = Inr (ctx_free ctx (row_fam r) (row_id ctx r))"
    using is_table_free_eq [OF geo row(2)] by (simp add: row_id_def)
  have rel: "release_table ctx (row_fam r) (row_tbl r) = Inr (toggle_id ctx (row_fam r) (row_id ctx r))"
    using release_table_eq [OF geo row(2), of "row_tbl r"] row(3) by (simp add: row_id_def)
  show ?thesis
  proof (cases "ctx_free ctx (row_fam r) (row_id ctx r)")
    case True
    with free assms(1) show ?thesis by (simp add: release_dead_lease_def)
  next
    case False
    have "srv_inv now (toggle_id ctx (row_fam r) (row_id ctx r))"
      using live_taken_toggle [OF wf live row] other wf by (simp add: srv_inv_def)
    moreover have "ctx_free (toggle_id ctx (row_fam r) (row_id ctx r)) (row_fam r) (row_id ctx r)"
      using False geo row by (simp add: ctx_free_toggle same_map_def)
    ultimately show ?thesis using False free rel by (simp add: release_dead_lease_def)
  qed
qed

lemma run_release_dead:
  assumes "srv_inv now ctx"
    and "\<And>x. x \<in> set xs \<Longrightarrow> \<exists>r \<in> set (rt_rows ctx). x = (RtTable r, AddrFamily r) \<and> LeaseExpires r \<le> now"
  shows "\<exists>ctx'. run_check_table release_dead_lease xs ctx = Inr ctx'
    \<and> srv_inv now ctx' \<and> rt_rows ctx' = rt_rows ctx"
  unfolding run_check_table_def
proof (rule foldR_total [where P = "\<lambda>s. srv_inv now s \<and> rt_rows s = rt_rows ctx"])
  show "srv_inv now ctx \<and> rt_rows ctx = rt_rows ctx" using assms(1) by simp
next
  fix x s assume x: "x \<in> set xs" and s: "srv_inv now s \<and> rt_rows s = rt_rows ctx"
  then obtain r where "r \<in> set (rt_rows s)" "x = (RtTable r, AddrFamily r)" "LeaseExpires r \<le> now"
    using assms(2) by metis
  with release_dead_lease_step [of now s r] s
  show "\<exists>s'. (case x of (t, f) \<Rightarrow> release_dead_lease (word_of_int f) (word_of_int t)) s = Inr s'
      \<and> srv_inv now s' \<and> rt_rows s' = rt_rows ctx"
    by (auto simp: row_fam_def row_tbl_def)
qed

lemma set_deliver: "set (deliver lim xs) \<subseteq> set xs"
  by (cases lim) (auto dest: in_set_takeD)

lemma sweep_preserves:
  assumes "srv_inv now ctx" and "clock_ok now" and "clk = None \<or> clk = Some now"
  shows "\<exists>ctx'. table_allocator_server_clients_delete_dead_leases clk sel_rc del_rc ctx = Inr ctx'
    \<and> srv_inv now ctx'"
proof (cases "clk = None \<or> bind_rc sel_rc \<noteq> 0")
  case True
  with assms show ?thesis
    by (auto simp: table_allocator_server_clients_delete_dead_leases_def
        table_allocator_sqlite_delete_dead_leases_def)
next
  case False
  with assms(3) have clk: "clk = Some now" and bind: "bind_rc sel_rc = 0" by auto
  let ?xs = "deliver (row_limit sel_rc) (select_dead_leases now (rt_rows ctx))"
  have "\<exists>r \<in> set (rt_rows ctx). x = (RtTable r, AddrFamily r) \<and> LeaseExpires r \<le> now" if "x \<in> set ?xs" for x
    using that set_deliver by (fastforce simp: select_dead_leases_def)
  from run_release_dead [OF assms(1) this] obtain c where
    c: "run_check_table release_dead_lease ?xs ctx = Inr c" "srv_inv now c" by blast
  have "srv_inv now (c\<lparr>rt_rows := delete_dead_leases now (rt_rows c)\<rparr>)"
    using c(2) by (intro srv_inv_fewer_rows) (auto simp: delete_dead_leases_def srv_inv_def srv_wf_def
        primary_key_def distinct_map_filter)
  with c clk bind show ?thesis
    by (simp add: table_allocator_server_clients_delete_dead_leases_def
        table_allocator_sqlite_delete_dead_leases_def clock_ok_sint [OF assms(2)])
qed

section \<open>Map and database in step\<close>

text \<open>
  Below \<open>num_tables\<close>, a table is free exactly when no row holds it, and no client has two
  leases. Then the leases alone determine what the handlers do.
\<close>

definition holds :: "tas_ctx \<Rightarrow> u8 \<Rightarrow> nat \<Rightarrow> bool" where
  "holds ctx f i \<longleftrightarrow> (\<exists>r \<in> set (rt_rows ctx). row_fam r = f \<and> row_id ctx r = i)"

definition synced :: "tas_ctx \<Rightarrow> bool" where
  "synced ctx \<longleftrightarrow> srv_wf ctx \<and> one_lease (rt_rows ctx)
     \<and> (\<forall>f i. valid_family f \<longrightarrow> family_map ctx f \<noteq> None \<longrightarrow> i < unat (num_tables ctx)
           \<longrightarrow> ctx_free ctx f i = (\<not> holds ctx f i))"

lemma holds_frame [simp]: "holds (toggle_id ctx f i) = holds ctx"
  by (simp add: fun_eq_iff holds_def)

lemma syncedI:
  assumes "srv_wf ctx" and "one_lease (rt_rows ctx)"
    and "\<And>f i. valid_family f \<Longrightarrow> family_map ctx f \<noteq> None \<Longrightarrow> i < unat (num_tables ctx) \<Longrightarrow>
      ctx_free ctx f i = (\<not> holds ctx f i)"
  shows "synced ctx"
  using assms unfolding synced_def by blast

lemma syncedD:
  "synced ctx \<Longrightarrow> valid_family f \<Longrightarrow> family_map ctx f \<noteq> None \<Longrightarrow> i < unat (num_tables ctx)
   \<Longrightarrow> ctx_free ctx f i = (\<not> holds ctx f i)"
  by (simp add: synced_def)

lemma synced_toggle_beyond:
  assumes "synced ctx" and "family_map ctx f \<noteq> None" and "i < capacity ctx" and "unat (num_tables ctx) \<le> i"
  shows "synced (toggle_id ctx f i)"
  using assms by (auto simp: synced_def srv_wf_def ctx_free_toggle)

lemma bex_update_rt_table:
  assumes "\<And>r. P (r\<lparr>LeaseExpires := e\<rparr>) = P r"
  shows "(\<exists>r \<in> set (update_rt_table e f t rows). P r) = (\<exists>r \<in> set rows. P r)"
proof -
  have "P (if AddrFamily r = f \<and> RtTable r = t then r\<lparr>LeaseExpires := e\<rparr> else r) = P r" for r
    using assms by simp
  then show ?thesis
    unfolding update_rt_table_def set_map bex_simps(7) by simp
qed

lemma holds_update_lease:
  "holds (ctx\<lparr>rt_rows := update_rt_table e f t (rt_rows ctx)\<rparr>) = holds ctx"
  by (simp add: fun_eq_iff holds_def)
     (subst bex_update_rt_table, simp_all add: row_fam_def row_id_def row_tbl_def)

lemma leased_table_update [simp]:
  assumes "one_lease rows"
  shows "leased_table (update_rt_table e f t rows) = leased_table rows"
proof (rule ext)
  fix k
  have "(\<exists>r \<in> set (update_rt_table e f t rows). client_of r = k \<and> RtTable r = x)
      = (\<exists>r \<in> set rows. client_of r = k \<and> RtTable r = x)" for x
    by (rule bex_update_rt_table) (simp add: client_of_def)
  with assms show "leased_table (update_rt_table e f t rows) k = leased_table rows k"
    by (intro leased_table_eqI) simp_all
qed

text \<open>
  The abstract request: a client keeps the table it has; otherwise it gets the least table
  number of the range that no client of its family has, or nothing if there is none. Table
  numbers are read as the signed integers the database stores.
\<close>

definition table_number :: "tas_ctx \<Rightarrow> nat \<Rightarrow> int" where
  "table_number ctx i = c_int (uint (table_offset ctx) + int i)"

definition request_spec ::
  "(nat \<Rightarrow> int) \<Rightarrow> nat \<Rightarrow> (client_key \<rightharpoonup> int) \<Rightarrow> client_key \<Rightarrow> int option \<Rightarrow> (client_key \<rightharpoonup> int) \<Rightarrow> bool"
  where
  "request_spec number n L k res L' \<longleftrightarrow>
     (case L k of
        Some t \<Rightarrow> res = Some t \<and> L' = L
      | None \<Rightarrow>
          (\<exists>i < n. (\<forall>k'. fst k' = fst k \<longrightarrow> L k' \<noteq> Some (number i))
             \<and> (\<forall>j < i. \<exists>k'. fst k' = fst k \<and> L k' = Some (number j))
             \<and> res = Some (number i) \<and> L' = L(k \<mapsto> number i))
          \<or> ((\<forall>j < n. \<exists>k'. fst k' = fst k \<and> L k' = Some (number j)) \<and> res = None \<and> L' = L))"

lemma number_of_table:
  assumes "unat (t :: u32) = unat (table_offset ctx) + i"
  shows "sint t = table_number ctx i"
proof -
  have "uint t = uint (table_offset ctx) + int i"
    using assms by (metis of_nat_add uint_nat)
  then have "word_of_int (uint (table_offset ctx) + int i) = t"
    by (metis word_of_int_uint)
  then show ?thesis unfolding table_number_def c_int_def by (simp only:)
qed

lemma holds_leased:
  assumes "srv_wf ctx" and "one_lease (rt_rows ctx)" and "i < unat (num_tables ctx)"
  shows "holds ctx f i = (\<exists>k. fst k = uint f \<and> leased_table (rt_rows ctx) k = Some (table_number ctx i))"
proof -
  let ?t = "table_offset ctx + of_nat i"
  have "unat (table_offset ctx) + i < 2 ^ 32" using assms by (simp add: srv_wf_def geometry_def)
  then have ut: "unat ?t = unat (table_offset ctx) + i"
    by (simp add: unat_word_ariths unsigned_of_nat take_bit_eq_mod)
  then have sint: "sint ?t = table_number ctx i" by (rule number_of_table)
  have "i < 2 ^ 32" using \<open>unat (table_offset ctx) + i < 2 ^ 32\<close> by simp
  then have id: "table_id ctx ?t = i"
    by (simp add: table_id_def unsigned_of_nat take_bit_eq_mod)
  have "(row_fam r = f \<and> row_id ctx r = i) = (fst (client_of r) = uint f \<and> RtTable r = table_number ctx i)"
    if "r \<in> set (rt_rows ctx)" for r
  proof -
    have ok: "sint (row_tbl r) = RtTable r" "uint (row_fam r) = AddrFamily r"
      using assms(1) that by (auto simp: srv_wf_def row_ok_def)
    have "(row_id ctx r = i) = (row_tbl r = ?t)"
      using table_id_inject id by (metis row_id_def)
    also have "\<dots> = (RtTable r = table_number ctx i)"
      using ok(1) sint by (metis sint_eq_iff)
    finally show ?thesis
      using ok(2) by (metis client_of_def fst_conv word_of_int_uint)
  qed
  then have "holds ctx f i = (\<exists>r \<in> set (rt_rows ctx). fst (client_of r) = uint f \<and> RtTable r = table_number ctx i)"
    unfolding holds_def by blast
  also have "\<dots> = (\<exists>k. fst k = uint f \<and> leased_table (rt_rows ctx) k = Some (table_number ctx i))"
    unfolding leased_table_Some [OF assms(2)] by blast
  finally show ?thesis .
qed

definition all_ok :: "int \<Rightarrow> req_env \<Rightarrow> bool" where
  "all_ok now env \<longleftrightarrow> clock env = Some now \<and> get_rc env = sql_ok \<and> upd_rc env = sql_ok \<and> ins_rc env = sql_ok"

lemma get_table_0:
  assumes "srv_wf ctx"
  shows "(table_allocator_sqlite_get_table sql_ok ctx rq = 0)
    = (leased_table (rt_rows ctx) (client_key rq) = None)"
proof (cases "leased_table (rt_rows ctx) (client_key rq)")
  case None
  then show ?thesis by (simp add: get_table_leased)
next
  case (Some t)
  then obtain r where "find (\<lambda>r. client_of r = client_key rq) (rt_rows ctx) = Some r" "RtTable r = t"
    by (auto simp: leased_table_find)
  then have "r \<in> set (rt_rows ctx)" "RtTable r = t"
    by (metis find_Some_iff nth_mem, simp)
  then have "(word_of_int t :: u32) \<noteq> 0"
    using assms by (auto simp: srv_wf_def row_ok_def row_tbl_def)
  with Some show ?thesis by (simp add: get_table_leased)
qed

lemma insert_ok:
  "table_allocator_sqlite_insert_table sql_ok ctx rq t e
   = (True, ctx\<lparr>rt_rows := insert_rt_table (row_of rq t e) (rt_rows ctx)\<rparr>)"
  by (simp add: table_allocator_sqlite_insert_table_def)

lemma update_ok:
  "table_allocator_sqlite_update_lease sql_ok ctx t f e
   = (True, ctx\<lparr>rt_rows := update_rt_table (sint e) (uint f) (sint t) (rt_rows ctx)\<rparr>)"
  by (simp add: table_allocator_sqlite_update_lease_def)

lemma synced_update_lease:
  fixes e t :: u32 and f :: u8
  assumes "synced ctx"
  shows "synced (ctx\<lparr>rt_rows := update_rt_table (sint e) (uint f) (sint t) (rt_rows ctx)\<rparr>)"
  using assms srv_wf_update_lease [OF _ update_ok]
  by (simp add: synced_def holds_update_lease)

text \<open>Inserting the row of a table no row holds.\<close>

lemma insert_unheld:
  assumes "synced ctx" and "leased_table (rt_rows ctx) (client_key rq) = None"
    and "\<not> holds ctx (req_family rq) (table_id ctx t)"
    and "row_ok ctx (row_of rq t e)" and "family_map ctx (req_family rq) \<noteq> None"
    and "ctx' = (toggle_id ctx (req_family rq) (table_id ctx t))
      \<lparr>rt_rows := insert_rt_table (row_of rq t e) (rt_rows ctx)\<rparr>"
    and "ctx_free ctx (req_family rq) (table_id ctx t)"
  shows "synced ctx'"
    and "leased_table (rt_rows ctx') = (leased_table (rt_rows ctx))(client_key rq \<mapsto> sint t)"
proof -
  let ?r = "row_of rq t e" and ?f = "req_family rq" and ?i = "table_id ctx t"
  have wf: "srv_wf ctx" and one: "one_lease (rt_rows ctx)" using assms(1) by (simp_all add: synced_def)
  have pk: "primary_key (rt_rows ctx)" using wf by (simp add: srv_wf_def)
  have ids: "row_fam ?r = ?f" "row_tbl ?r = t" by (simp_all add: row_fam_def row_tbl_def)
  have unheld: "\<not> (RtTable q = sint t \<and> AddrFamily q = uint ?f)" if "q \<in> set (rt_rows ctx)" for q
  proof
    assume "RtTable q = sint t \<and> AddrFamily q = uint ?f"
    then have "row_fam q = ?f \<and> row_id ctx q = ?i" by (simp add: row_fam_def row_id_def row_tbl_def)
    with that assms(3) show False by (auto simp: holds_def)
  qed
  have set': "set (rt_rows ctx') = insert ?r (set (rt_rows ctx))"
    using unheld by (auto simp: assms(6) set_insert_rt_table)
  show "leased_table (rt_rows ctx') = (leased_table (rt_rows ctx))(client_key rq \<mapsto> sint t)"
    using rows.insert_unowned [of "rt_rows ctx" ?r] pk one assms(2) unheld
    by (simp add: assms(6) table_owner_None client_key_def)
  have "srv_wf ctx'"
    using wf assms(4) pk by (auto simp: srv_wf_def assms(6) set_insert_rt_table primary_key_insert)
  moreover have "one_lease (rt_rows ctx')"
    using one assms(2) by (simp add: assms(6) one_lease_insert)
  moreover have "holds ctx' f j = (holds ctx f j \<or> f = ?f \<and> j = ?i)" for f j
    using set' ids by (auto simp: holds_def assms(6) row_id_def)
  moreover have "ctx_free ctx' f j = (ctx_free ctx f j \<and> \<not> (same_map ?f f \<and> j = ?i))" for f j
    using assms(5-7) wf ctx_free_less [of ctx ?f ?i] same_map_free [of ?f f ctx]
    by (auto simp: ctx_free_toggle srv_wf_def)
  moreover have "valid_family ?f"
    using assms(4) ids by (simp add: row_ok_def)
  ultimately show "synced ctx'"
    using syncedD [OF assms(1)] valid_same_map unfolding synced_def
    by (auto simp: assms(6))
qed

lemma synced_realloc:
  assumes "synced ctx" and "r \<in> set (rt_rows ctx)"
    and "ctx1 = (if ctx_free ctx (row_fam r) (row_id ctx r) then toggle_id ctx (row_fam r) (row_id ctx r) else ctx)"
  shows "synced ctx1" and "rt_rows ctx1 = rt_rows ctx"
proof -
  have row: "valid_family (row_fam r)" "family_map ctx (row_fam r) \<noteq> None" "row_id ctx r < capacity ctx"
    using assms(1,2) by (auto simp: synced_def srv_wf_def row_ok_def)
  have "holds ctx (row_fam r) (row_id ctx r)" using assms(2) by (auto simp: holds_def)
  then show "synced ctx1"
    using syncedD [OF assms(1) row(1,2), of "row_id ctx r"] synced_toggle_beyond [OF assms(1) row(2,3)]
      assms(1,3) by (metis not_le)
  show "rt_rows ctx1 = rt_rows ctx" by (simp add: assms(3))
qed

lemma synced_spec_taken:
  assumes "synced ctx" and "family_served ctx f" and "i < unat (num_tables ctx)"
  shows "ctx_free ctx f i =
    (\<forall>k'. fst k' = uint f \<longrightarrow> leased_table (rt_rows ctx) k' \<noteq> Some (table_number ctx i))"
  using assms served_valid [OF assms(2)] syncedD [OF assms(1), of f i] holds_leased [of ctx i f]
  by (auto simp: synced_def)

lemma handle_req_refinement:
  assumes "synced ctx" and "family_served ctx (req_family rq)" and "all_ok now env"
  shows "\<exists>res ctx'. table_allocator_server_clients_handle_req env ctx rq = Inr (res, ctx') \<and> synced ctx'
    \<and> request_spec (table_number ctx) (unat (num_tables ctx)) (leased_table (rt_rows ctx)) (client_key rq)
         (map_option (\<lambda>(t, e). sint t) res) (leased_table (rt_rows ctx'))"
proof -
  have wf: "srv_wf ctx" and one: "one_lease (rt_rows ctx)" using assms(1) by (simp_all add: synced_def)
  note env = assms(3) [unfolded all_ok_def]
  have key: "fst (client_key rq) = uint (req_family rq)" by (simp add: client_key_def)
  note taken = synced_spec_taken [OF assms(1,2)]
  from wf show ?thesis
  proof (cases rule: handle_req_cases [where env = env and rq = rq])
    case refused
    with assms env show ?thesis by simp
  next
    case (again tv r ctx1 ctx2 ok)
    have s1: "synced ctx1" "rt_rows ctx1 = rt_rows ctx"
      using synced_realloc [OF assms(1) again(3,7)] by simp_all
    have ok: ok and ctx2: "ctx2 = ctx1\<lparr>rt_rows := update_rt_table
        (sint (word_of_int (now + uint (table_timeout ctx)) :: u32)) (uint (req_family rq))
        (sint (row_tbl r)) (rt_rows ctx1)\<rparr>"
      using again(2,9) env by (auto simp: update_ok)
    have "leased_table (rt_rows ctx) (client_key rq) = Some (sint (row_tbl r))"
      using one wf again(3,4) by (auto simp: leased_table_Some srv_wf_def row_ok_def)
    moreover have "synced ctx2" using synced_update_lease [OF s1(1)] ctx2 by simp
    moreover have "leased_table (rt_rows ctx2) = leased_table (rt_rows ctx)"
      using one by (simp add: ctx2 s1(2))
    ultimately show ?thesis using again(10) ok by (simp add: request_spec_def)
  next
    case (full tv ctx1)
    have "leased_table (rt_rows ctx) (client_key rq) = None"
      using full(3) env by (simp add: get_table_0 [OF wf])
    moreover have "synced ctx1"
      using full(5) assms(1) synced_toggle_beyond served_valid [OF assms(2)] by auto
    moreover have "rt_rows ctx1 = rt_rows ctx" using full(5) by auto
    ultimately show ?thesis
      using full(4,6) taken by (auto simp: request_spec_def key)
  next
    case (fresh tv i t ctx1 ctx2 ok)
    have none: "leased_table (rt_rows ctx) (client_key rq) = None"
      using fresh(3) env by (simp add: get_table_0 [OF wf])
    have fam: "valid_family (req_family rq)" "family_map ctx (req_family rq) \<noteq> None"
      using served_valid [OF assms(2)] by simp_all
    have unheld: "\<not> holds ctx (req_family rq) i"
      using syncedD [OF assms(1) fam fresh(4)] fresh(6) by simp
    have ok: ok and ctx2: "ctx2 = (toggle_id ctx (req_family rq) (table_id ctx t))
        \<lparr>rt_rows := insert_rt_table (row_of rq t (tv + uint (table_timeout ctx))) (rt_rows ctx)\<rparr>"
      using fresh(8,11,12) env by (auto simp: insert_ok)
    note ins = insert_unheld [OF assms(1) none _ row_ok_fresh [OF assms(2) fresh(8,9,5)] fam(2) ctx2]
    have ins1: "synced ctx2" and
      ins2: "leased_table (rt_rows ctx2) = (leased_table (rt_rows ctx))(client_key rq \<mapsto> sint t)"
      using ins unheld fresh(6,8) by simp_all
    have "sint t = table_number ctx i" using fresh(10) by (rule number_of_table)
    moreover have "\<forall>k'. fst k' = uint (req_family rq) \<longrightarrow> leased_table (rt_rows ctx) k' \<noteq> Some (table_number ctx i)"
      using taken [OF fresh(4)] fresh(6) by simp
    moreover have "\<forall>j < i. \<exists>k'. fst k' = uint (req_family rq) \<and> leased_table (rt_rows ctx) k' = Some (table_number ctx j)"
      using taken fresh(4,7) by (metis order_less_trans)
    ultimately show ?thesis
      using fresh(4,13) ok none ins1 ins2 by (auto simp: request_spec_def key)
  qed
qed

lemma holds_delete:
  assumes "srv_wf ctx" and "one_lease (rt_rows ctx)" and "r \<in> set (rt_rows ctx)"
    and "client_of r = (a, b, c)"
  shows "holds (ctx\<lparr>rt_rows := delete_rt_table a b c (rt_rows ctx)\<rparr>) f i
    = (holds ctx f i \<and> \<not> (f = row_fam r \<and> i = row_id ctx r))"
proof -
  have "q = r" if "q \<in> set (rt_rows ctx)" "client_of q = (a, b, c)" for q
    using that assms(2-4) by (auto simp: one_lease_def distinct_map inj_on_def)
  then have "set (delete_rt_table a b c (rt_rows ctx)) = set (rt_rows ctx) - {r}"
    using assms(4) unfolding set_delete_rt_table by blast
  moreover have "(\<exists>q \<in> set (rt_rows ctx) - {r}. row_fam q = f \<and> row_id ctx q = i)
      = ((\<exists>q \<in> set (rt_rows ctx). row_fam q = f \<and> row_id ctx q = i) \<and> \<not> (f = row_fam r \<and> i = row_id ctx r))"
    using row_eqI [OF assms(1) _ assms(3)] by blast
  ultimately show ?thesis by (simp add: holds_def)
qed

lemma handle_release_refinement:
  assumes "synced ctx"
  shows "\<exists>ctx'. table_allocator_server_clients_handle_release sql_ok sql_ok ctx rq = Inr (True, ctx')
    \<and> synced ctx' \<and> leased_table (rt_rows ctx') = (leased_table (rt_rows ctx))(client_key rq := None)"
proof -
  have wf: "srv_wf ctx" and one: "one_lease (rt_rows ctx)" using assms(1) by (simp_all add: synced_def)
  from wf show ?thesis
  proof (cases rule: handle_release_cases [where sel_rc = sql_ok and del_rc = sql_ok and rq = rq])
    case absent
    then have "leased_table (rt_rows ctx) (client_key rq) = None" by (simp add: get_table_0 [OF wf])
    with absent assms show ?thesis by (auto simp: fun_upd_idem)
  next
    case failed
    then show ?thesis
      by (auto simp: table_allocator_server_clients_handle_release_def Let_def
          table_allocator_sqlite_remove_table_def res_simps split: if_splits)
  next
    case (released r ctx1)
    obtain a b c where key: "client_key rq = (a, b, c)" by (metis prod_cases3)
    have ctx1: "ctx1 = ctx\<lparr>rt_rows := delete_rt_table a b c (rt_rows ctx)\<rparr>" using released(5) key by simp
    have row: "geometry ctx" "valid_family (row_fam r)" "family_map ctx (row_fam r) \<noteq> None" "row_id ctx r < capacity ctx"
      using wf released(1) by (auto simp: srv_wf_def row_ok_def)
    let ?ctx' = "toggle_id ctx1 (row_fam r) (row_id ctx r)"
    have wf1: "srv_wf ctx1"
      using wf by (simp add: ctx1 srv_wf_def set_delete_rt_table keys_delete)
    have was: "holds ctx (row_fam r) (row_id ctx r)" using released(1) by (auto simp: holds_def)
    have bit: "ctx_free ?ctx' f i = (\<not> holds ?ctx' f i)"
      if f: "valid_family f" "family_map ctx f \<noteq> None" "i < unat (num_tables ctx)" for f i
    proof -
      have "geometry ctx1" "family_map ctx1 (row_fam r) \<noteq> None" "row_id ctx r < capacity ctx1"
        using row ctx1 by simp_all
      from ctx_free_toggle [OF this, of f i]
      have free: "ctx_free ?ctx' f i = (if f = row_fam r \<and> i = row_id ctx r then \<not> ctx_free ctx f i else ctx_free ctx f i)"
        unfolding valid_same_map [OF row(2) f(1)] by (auto simp: ctx1)
      have held: "holds ?ctx' f i = (holds ctx f i \<and> \<not> (f = row_fam r \<and> i = row_id ctx r))"
        using holds_delete [OF wf one released(1)] released(2) key ctx1 by simp
      show ?thesis
        using free held syncedD [OF assms f] was by (metis (full_types))
    qed
    have "synced ?ctx'"
    proof (rule syncedI)
      show "srv_wf ?ctx'" using wf1 by simp
      show "one_lease (rt_rows ?ctx')" using one by (simp add: ctx1 keys_delete)
    qed (rule bit, simp_all add: ctx1)
    moreover have "leased_table (rt_rows ?ctx') = (leased_table (rt_rows ctx))(client_key rq := None)"
      using one by (auto simp: ctx1 key leased_table_delete)
    ultimately show ?thesis using released(6) by blast
  qed
qed

section \<open>The sweep, exactly\<close>

text \<open>
  Running the callback over dead rows frees their bits and no other, in whatever order and
  however often the rows are listed.
\<close>

lemma run_release_frees:
  assumes "srv_inv now ctx" and "run_check_table release_dead_lease xs ctx = Inr ctx'"
    and "\<And>x. x \<in> set xs \<Longrightarrow> \<exists>r \<in> set (rt_rows ctx). x = (RtTable r, AddrFamily r) \<and> LeaseExpires r \<le> now"
    and "valid_family f"
  shows "ctx_free ctx' f i = (ctx_free ctx f i \<or>
    (\<exists>r \<in> set (rt_rows ctx). (RtTable r, AddrFamily r) \<in> set xs \<and> row_fam r = f \<and> row_id ctx r = i))
    \<and> num_tables ctx' = num_tables ctx \<and> row_id ctx' = row_id ctx
    \<and> (family_map ctx' f = None) = (family_map ctx f = None)"
  using assms(1-3)
proof (induction xs arbitrary: ctx)
  case Nil
  then show ?case by (simp add: run_check_table_def)
next
  case (Cons x xs)
  obtain r where r: "r \<in> set (rt_rows ctx)" "x = (RtTable r, AddrFamily r)" "LeaseExpires r \<le> now"
    using Cons.prems(3) [of x] by auto
  obtain c where c: "release_dead_lease (row_fam r) (row_tbl r) ctx = Inr c" "srv_inv now c"
      "rt_rows c = rt_rows ctx" "ctx_free c (row_fam r) (row_id ctx r)"
      "c = ctx \<or> c = toggle_id ctx (row_fam r) (row_id ctx r)"
    using release_dead_lease_step [OF Cons.prems(1) r(1,3)] by blast
  have wf: "srv_wf ctx" using Cons.prems(1) by (simp add: srv_inv_def)
  then have row: "geometry ctx" "family_map ctx (row_fam r) \<noteq> None" "row_id ctx r < capacity ctx" "valid_family (row_fam r)"
    using r(1) by (auto simp: srv_wf_def row_ok_def)
  have "run_check_table release_dead_lease xs c = Inr ctx'"
    using Cons.prems(2) r(2) c(1) by (simp add: run_check_table_def row_fam_def row_tbl_def)
  from Cons.IH [OF c(2) this] have IH: "ctx_free ctx' f i = (ctx_free c f i \<or>
      (\<exists>r \<in> set (rt_rows ctx). (RtTable r, AddrFamily r) \<in> set xs \<and> row_fam r = f \<and> row_id c r = i))
      \<and> num_tables ctx' = num_tables c \<and> row_id ctx' = row_id c
      \<and> (family_map ctx' f = None) = (family_map c f = None)"
    using Cons.prems(3) by (simp add: c(3))
  have frame: "num_tables c = num_tables ctx" "row_id c = row_id ctx" "(family_map c f = None) = (family_map ctx f = None)"
    using c(5) by auto
  have head: "ctx_free c f i = (ctx_free ctx f i \<or> row_fam r = f \<and> row_id ctx r = i)"
    using c(4,5) ctx_free_toggle [OF row(1-3), of f i] valid_same_map [OF row(4) assms(4)]
    by (metis (full_types))
  have same: "q = r" if "q \<in> set (rt_rows ctx)" "(RtTable q, AddrFamily q) = x" for q
    using that r(1,2) wf by (auto simp: srv_wf_def primary_key_def distinct_map inj_on_def)
  have "(\<exists>q \<in> set (rt_rows ctx). (RtTable q, AddrFamily q) \<in> set (x # xs) \<and> row_fam q = f \<and> row_id ctx q = i)
      = ((\<exists>q \<in> set (rt_rows ctx). (RtTable q, AddrFamily q) \<in> set xs \<and> row_fam q = f \<and> row_id ctx q = i)
         \<or> row_fam r = f \<and> row_id ctx r = i)"
    using same r(1,2) unfolding set_simps insert_iff by blast
  with IH head frame show ?case by metis
qed

lemma synced_live:
  assumes "synced ctx" and "\<forall>r \<in> set (rt_rows ctx). row_id ctx r < unat (num_tables ctx)"
  shows "live_taken now ctx"
  unfolding live_taken_def
proof (intro ballI impI)
  fix r assume r: "r \<in> set (rt_rows ctx)"
  then have "valid_family (row_fam r)" "family_map ctx (row_fam r) \<noteq> None"
    using assms(1) by (auto simp: synced_def srv_wf_def row_ok_def)
  moreover have "holds ctx (row_fam r) (row_id ctx r)" using r by (auto simp: holds_def)
  ultimately show "\<not> ctx_free ctx (row_fam r) (row_id ctx r)"
    using syncedD [OF assms(1)] assms(2) r by blast
qed

lemma select_dead_iff:
  assumes "primary_key rows" and "r \<in> set rows"
  shows "((RtTable r, AddrFamily r) \<in> set (select_dead_leases now rows)) = (LeaseExpires r \<le> now)"
proof
  assume "(RtTable r, AddrFamily r) \<in> set (select_dead_leases now rows)"
  then obtain q where q: "q \<in> set rows" "(RtTable r, AddrFamily r) = (RtTable q, AddrFamily q)" "LeaseExpires q \<le> now"
    by (auto simp: select_dead_leases_def)
  then have "q = r" using assms by (auto simp: primary_key_def distinct_map inj_on_def)
  with q(3) show "LeaseExpires r \<le> now" by simp
qed (use assms(2) in \<open>auto simp: select_dead_leases_def\<close>)

lemma sweep_refinement:
  assumes "synced ctx" and "live_taken now ctx" and "clock_ok now"
  shows "\<exists>ctx'. table_allocator_server_clients_delete_dead_leases (Some now) sql_ok sql_ok ctx = Inr ctx'
    \<and> synced ctx' \<and> rt_rows ctx' = filter (\<lambda>r. now < LeaseExpires r) (rt_rows ctx)"
proof -
  let ?dead = "select_dead_leases now (rt_rows ctx)"
  have inv: "srv_inv now ctx" and wf: "srv_wf ctx" and one: "one_lease (rt_rows ctx)"
    using assms(1,2) by (simp_all add: srv_inv_def synced_def)
  have dead: "\<exists>r \<in> set (rt_rows ctx). x = (RtTable r, AddrFamily r) \<and> LeaseExpires r \<le> now" if "x \<in> set ?dead" for x
    using that by (auto simp: select_dead_leases_def)
  obtain c where c: "run_check_table release_dead_lease ?dead ctx = Inr c" "srv_inv now c" "rt_rows c = rt_rows ctx"
    using run_release_dead [OF inv dead] by blast
  let ?c = "c\<lparr>rt_rows := delete_dead_leases now (rt_rows ctx)\<rparr>"
  have run: "table_allocator_server_clients_delete_dead_leases (Some now) sql_ok sql_ok ctx = Inr ?c"
    using c by (simp add: table_allocator_server_clients_delete_dead_leases_def
        table_allocator_sqlite_delete_dead_leases_def clock_ok_sint [OF assms(3)] sql_ok_def)
  have free: "ctx_free c f i = (ctx_free ctx f i \<or>
      (\<exists>r \<in> set (rt_rows ctx). (RtTable r, AddrFamily r) \<in> set ?dead \<and> row_fam r = f \<and> row_id ctx r = i))
      \<and> num_tables c = num_tables ctx \<and> row_id c = row_id ctx
      \<and> (family_map c f = None) = (family_map ctx f = None)" if "valid_family f" for f i
    using dead that by (intro run_release_frees [OF inv c(1)])
  have keys: "primary_key (rt_rows ctx)" "one_lease (delete_dead_leases now (rt_rows ctx))"
    using wf one by (simp_all add: srv_wf_def keys_expire)
  have "srv_inv now ?c"
    using c(2,3) keys_expire(1) [OF keys(1), of now] by (intro srv_inv_fewer_rows) (auto simp: delete_dead_leases_def)
  then have wf': "srv_wf ?c" by (simp add: srv_inv_def)
  have bit: "ctx_free c f i = (\<not> holds ?c f i)"
    if f: "valid_family f" "family_map c f \<noteq> None" "i < unat (num_tables c)" for f i
  proof -
    from free [OF f(1)] f have f': "family_map ctx f \<noteq> None" "i < unat (num_tables ctx)" and ids: "row_id c = row_id ctx"
      and b: "ctx_free c f i = (\<not> holds ctx f i \<or>
        (\<exists>r \<in> set (rt_rows ctx). (RtTable r, AddrFamily r) \<in> set ?dead \<and> row_fam r = f \<and> row_id ctx r = i))"
      using syncedD [OF assms(1) f(1)] by auto
    have "((RtTable r, AddrFamily r) \<in> set ?dead) = (LeaseExpires r \<le> now)" if "r \<in> set (rt_rows ctx)" for r
      using keys(1) that by (rule select_dead_iff)
    then have "ctx_free c f i = (\<not> holds ctx f i \<or>
        (\<exists>r \<in> set (rt_rows ctx). LeaseExpires r \<le> now \<and> row_fam r = f \<and> row_id ctx r = i))"
      unfolding b by blast
    also have "\<dots> = (\<not> (\<exists>r \<in> set (rt_rows ctx). now < LeaseExpires r \<and> row_fam r = f \<and> row_id ctx r = i))"
      unfolding holds_def using row_eqI [OF wf] by (metis not_le)
    also have "\<dots> = (\<not> holds ?c f i)"
      by (auto simp: holds_def ids delete_dead_leases_def not_le)
    finally show ?thesis .
  qed
  have "synced ?c" using keys(2) bit by (intro syncedI wf') simp_all
  moreover have "rt_rows ?c = filter (\<lambda>r. now < LeaseExpires r) (rt_rows ctx)"
    by (simp add: delete_dead_leases_def not_le)
  ultimately show ?thesis using run by blast
qed

end
