(* ===== verification/Server_Leases.thy ===== *)
theory Server_Leases
  imports Server_Clients
begin

text \<open>
  What the request handlers promise to the clients of the server: no handler stops the
  process, a granted table belongs to the client alone, and on an undisturbed database the
  handlers are the operations of a map from clients to tables. The last property is about a situation
  the code does not handle: a database row the configured range of tables does not cover.
\<close>

section \<open>Grants\<close>

lemma handle_req_grant:
  assumes "srv_wf ctx"
    and "table_allocator_server_clients_handle_req env ctx rq = Inr (Some (t, e), ctx')"
  shows "(\<exists>r \<in> set (rt_rows ctx'). client_of r = client_key rq \<and> row_fam r = req_family rq \<and> row_tbl r = t)
    \<and> t \<noteq> 0 \<and> table_id ctx' t < capacity ctx'
    \<and> \<not> ctx_free ctx' (req_family rq) (table_id ctx' t)
    \<and> (\<exists>now. clock env = Some now \<and> e = word_of_int (now + uint (table_timeout ctx)))"
  using assms(1)
proof (cases rule: handle_req_cases [where env = env and rq = rq])
  case refused
  with assms(2) show ?thesis by simp
next
  case (full now ctx1)
  with assms(2) show ?thesis by simp
next
  case (again now r ctx1 ctx2 ok)
  have ok: ok and res: "t = row_tbl r" "e = word_of_int (now + uint (table_timeout ctx))" "ctx' = ctx2"
    using again(10) assms(2) by (simp_all split: if_splits)
  have ctx2: "ctx2 = ctx1\<lparr>rt_rows := update_rt_table (sint (word_of_int (now + uint (table_timeout ctx)) :: u32))
      (uint (req_family rq)) (sint (row_tbl r)) (rt_rows ctx1)\<rparr>"
    using update_lease_cases [OF again(9)] ok by simp
  have frame: "rt_rows ctx1 = rt_rows ctx" "capacity ctx1 = capacity ctx" "row_id ctx1 = row_id ctx" "table_id ctx1 = table_id ctx"
    by (simp_all add: again(7))
  let ?P = "\<lambda>q. client_of q = client_key rq \<and> row_fam q = req_family rq \<and> row_tbl q = t"
  have "?P r" using again(4,5) res(1) by simp
  then have "\<exists>q \<in> set (rt_rows ctx). ?P q" using again(3) by blast
  then have "\<exists>q \<in> set (rt_rows ctx'). ?P q"
    unfolding res(3) ctx2 frame by (simp, subst bex_update_rt_table, simp_all add: client_of_def row_fam_def row_tbl_def)
  moreover have "row_tbl r \<noteq> 0" "row_id ctx r < capacity ctx"
    using assms(1) again(3) by (auto simp: srv_wf_def row_ok_def)
  ultimately show ?thesis
    using again(2,5,8) res ctx2 frame by (simp add: row_id_def)
next
  case (fresh now i t' ctx1 ctx2 ok)
  have ok: ok and res: "t = t'" "e = word_of_int (now + uint (table_timeout ctx))" "ctx' = ctx2"
    using fresh(13) assms(2) by (simp_all split: if_splits)
  have ctx2: "ctx2 = ctx1\<lparr>rt_rows := insert_rt_table (row_of rq t' (now + uint (table_timeout ctx))) (rt_rows ctx1)\<rparr>"
    using insert_table_cases [OF fresh(12)] ok by simp
  have "geometry ctx" "family_map ctx (req_family rq) \<noteq> None"
    using assms(1) served_valid [OF fresh(1)] by (auto simp: srv_wf_def)
  from ctx_free_toggle [OF this fresh(5), of "req_family rq" i]
  have "\<not> ctx_free ctx1 (req_family rq) i" using fresh(6,11) by (simp add: same_map_def)
  moreover have "\<exists>r \<in> set (rt_rows ctx'). client_of r = client_key rq \<and> row_fam r = req_family rq \<and> row_tbl r = t'"
    by (simp add: res(3) ctx2 set_insert_rt_table row_fam_def row_tbl_def)
  moreover have "ctx_free ctx' = ctx_free ctx1" "capacity ctx' = capacity ctx" "table_id ctx' = table_id ctx"
    by (simp_all add: res(3) ctx2 fresh(11))
  ultimately show ?thesis
    using fresh(2,5,8,9) res(1,2) by auto
qed

lemma same_row_client:
  assumes "srv_wf ctx" and "r \<in> set (rt_rows ctx)" and "q \<in> set (rt_rows ctx)"
    and "row_fam r = row_fam q" and "row_tbl r = row_tbl q"
  shows "r = q"
  using assms by (intro row_eqI) (simp_all add: row_id_def)

text \<open>No live lease of another client is touched by a request.\<close>

lemma handle_req_others:
  assumes "srv_inv now ctx" and "table_allocator_server_clients_handle_req env ctx rq = Inr (res, ctx')"
    and "q \<in> set (rt_rows ctx)" and "now < LeaseExpires q" and "client_of q \<noteq> client_key rq"
  shows "q \<in> set (rt_rows ctx')"
proof -
  from assms(1) have wf: "srv_wf ctx" and live: "live_taken now ctx" by (simp_all add: srv_inv_def)
  from wf show ?thesis
  proof (cases rule: handle_req_cases [where env = env and rq = rq])
    case refused
    with assms(2,3) show ?thesis by simp
  next
    case (full tv ctx1)
    with assms(2,3) show ?thesis by auto
  next
    case (again tv r ctx1 ctx2 ok)
    let ?upd = "\<lambda>p. if AddrFamily p = uint (req_family rq) \<and> RtTable p = sint (row_tbl r)
      then p\<lparr>LeaseExpires := sint (word_of_int (tv + uint (table_timeout ctx)) :: u32)\<rparr> else p"
    have "\<not> (AddrFamily q = uint (req_family rq) \<and> RtTable q = sint (row_tbl r))"
    proof
      assume "AddrFamily q = uint (req_family rq) \<and> RtTable q = sint (row_tbl r)"
      then have "q = r"
        using same_row_client [OF wf assms(3) again(3)] again(5) by (simp add: row_fam_def row_tbl_def)
      with assms(5) again(4) show False by simp
    qed
    then have "?upd q = q" by auto
    moreover have "rt_rows ctx1 = rt_rows ctx" by (simp add: again(7))
    ultimately have "q \<in> set (rt_rows ctx2)"
      using update_lease_cases [OF again(9)] assms(3) unfolding update_rt_table_def
      by (auto simp: image_iff intro!: bexI [of _ q])
    with again(10) assms(2) show ?thesis by simp
  next
    case (fresh tv i t ctx1 ctx2 ok)
    have "\<not> (RtTable q = sint t \<and> AddrFamily q = uint (req_family rq))"
    proof
      assume eq: "RtTable q = sint t \<and> AddrFamily q = uint (req_family rq)"
      then have "row_fam q = req_family rq" "row_id ctx q = i"
        using fresh(8) by (simp_all add: row_fam_def row_id_def row_tbl_def)
      with live assms(3,4) fresh(6) show False by (auto simp: live_taken_def)
    qed
    then have "q \<in> set (rt_rows ctx2)"
      using insert_table_cases [OF fresh(12)] assms(3) fresh(11) by (auto simp: set_insert_rt_table)
    with fresh(11,13) assms(2,3) show ?thesis by (auto split: if_splits)
  qed
qed

section \<open>Properties\<close>

text \<open>C4: whatever the clock and sqlite answer, a request, a release and the sweep return (none
  dereferences a disabled map or writes outside one) and keep the server's invariant: no lease that
  is alive loses its bit.\<close>

theorem handlers_keep_invariant:
  assumes "srv_inv now ctx" and "clock_ok now"
  shows "(\<exists>res ctx'. table_allocator_server_clients_handle_req env ctx rq = Inr (res, ctx') \<and> srv_inv now ctx')
    \<and> (\<exists>ok ctx'. table_allocator_server_clients_handle_release sel_rc del_rc ctx rq = Inr (ok, ctx') \<and> srv_inv now ctx')
    \<and> (\<forall>clk \<in> {None, Some now}. \<exists>ctx'.
         table_allocator_server_clients_delete_dead_leases clk sel_rc del_rc ctx = Inr ctx' \<and> srv_inv now ctx')"
  using handle_req_preserves [OF assms(1)] handle_release_preserves [OF assms(1)] sweep_preserves [OF assms]
  by blast

text \<open>C5: a granted table lies in the map with its bit taken, is recorded for the client,
  and belongs to nobody else: any row of the database with this family and table is the
  client's. The leases of the other clients that are alive are all still there.\<close>

theorem granted_table_exclusive:
  assumes "srv_inv now ctx"
    and "table_allocator_server_clients_handle_req env ctx rq = Inr (Some (t, e), ctx')"
  shows "table_id ctx' t < capacity ctx' \<and> \<not> ctx_free ctx' (req_family rq) (table_id ctx' t)
    \<and> (\<exists>r \<in> set (rt_rows ctx'). client_of r = client_key rq \<and> row_fam r = req_family rq \<and> row_tbl r = t)
    \<and> (\<forall>r \<in> set (rt_rows ctx'). row_fam r = req_family rq \<and> row_tbl r = t \<longrightarrow> client_of r = client_key rq)
    \<and> (\<forall>r \<in> set (rt_rows ctx). now < LeaseExpires r \<and> client_of r \<noteq> client_key rq \<longrightarrow> r \<in> set (rt_rows ctx'))"
proof -
  have wf: "srv_wf ctx" using assms(1) by (simp add: srv_inv_def)
  have "srv_wf ctx'"
    using handle_req_preserves [OF assms(1), of env rq] assms(2) by (auto simp: srv_inv_def)
  then show ?thesis
    using handle_req_grant [OF wf assms(2)] same_row_client [of ctx'] handle_req_others [OF assms] by metis
qed

text \<open>C6: on a database in step with the map, a request is the abstract one: a client that
  has a table gets the same table again, another gets the least number of the range that nobody of
  its family has, and nothing only if every number is leased.\<close>

theorem request_refines_spec:
  assumes "synced ctx" and "family_served ctx (req_family rq)" and "all_ok now env"
  shows "\<exists>res ctx'. table_allocator_server_clients_handle_req env ctx rq = Inr (res, ctx') \<and> synced ctx'
    \<and> request_spec (table_number ctx) (unat (num_tables ctx)) (leased_table (rt_rows ctx)) (client_key rq)
         (map_option (\<lambda>(t, e). sint t) res) (leased_table (rt_rows ctx'))"
  using assms by (rule handle_req_refinement)

text \<open>C7: on such a database a release deletes the client from the map of leases, and no
  other client.\<close>

theorem release_refines_spec:
  assumes "synced ctx"
  shows "\<exists>ctx'. table_allocator_server_clients_handle_release sql_ok sql_ok ctx rq = Inr (True, ctx')
    \<and> synced ctx' \<and> leased_table (rt_rows ctx') = (leased_table (rt_rows ctx))(client_key rq := None)"
  using assms by (rule handle_release_refinement)

text \<open>C8: on such a database the sweep removes exactly the leases that have ended, and the
  map stays in step: their tables, and no others, become free.\<close>

theorem sweep_refines_spec:
  assumes "synced ctx" and "live_taken now ctx" and "clock_ok now"
  shows "\<exists>ctx'. table_allocator_server_clients_delete_dead_leases (Some now) sql_ok sql_ok ctx = Inr ctx'
    \<and> synced ctx' \<and> rt_rows ctx' = filter (\<lambda>r. now < LeaseExpires r) (rt_rows ctx)"
  using assms by (rule sweep_refinement)

text \<open>C34: \<open>is_table_free\<close> answers 0 for a table outside the map, and the sweep then
  calls \<open>release_table\<close>, which does not check: a row outside the configured range that has ended
  makes the server write outside the map; for a family that is not enabled it dereferences a null
  pointer.\<close>

theorem sweep_of_foreign_row_faults:
  assumes "geometry ctx" and "rt_rows ctx = alive @ r # rest"
    and "\<forall>q \<in> set alive. now < LeaseExpires q" and "LeaseExpires r \<le> now" and "clock_ok now"
    and "capacity ctx \<le> row_id ctx r" and "bind_rc sel_rc = 0" and "row_limit sel_rc = None"
  shows "table_allocator_server_clients_delete_dead_leases (Some now) sel_rc del_rc ctx =
    Inl (if family_map ctx (row_fam r) = None then Null_pointer else Out_of_bounds)"
proof -
  have "select_dead_leases now (rt_rows ctx) = (RtTable r, AddrFamily r) # select_dead_leases now rest"
    using assms(2-4) by (auto simp: select_dead_leases_def filter_empty_conv not_le)
  moreover have "release_dead_lease (row_fam r) (row_tbl r) ctx =
      Inl (if family_map ctx (row_fam r) = None then Null_pointer else Out_of_bounds)"
    using assms(1,6) by (simp add: release_dead_lease_def row_id_def is_table_free_out_of_range
        release_table_out_of_range release_table_disabled)
  ultimately show ?thesis
    using assms(5,7,8)
    by (simp add: table_allocator_server_clients_delete_dead_leases_def clock_ok_sint
        table_allocator_sqlite_delete_dead_leases_def run_check_table_def row_fam_def row_tbl_def)
qed

section \<open>Witnesses\<close>

text \<open>
  One client with a lease of table 10000 until 500: its bit is taken (\<open>leased_ctx\<close>), or has been
  freed while the row stayed (\<open>freed_ctx\<close>).
\<close>

definition freed_ctx :: tas_ctx where
  "freed_ctx = example_ctx\<lparr>rt_rows := [row_of eth1_req 10000 500]\<rparr>"

definition leased_ctx :: tas_ctx where
  "leased_ctx = toggle_id freed_ctx AF_INET 0"

lemma freed_ctx_simps [simp]:
  "rt_rows freed_ctx = [row_of eth1_req 10000 500]" "geometry freed_ctx" "capacity freed_ctx = 64"
  "family_map freed_ctx = family_map example_ctx" "num_tables freed_ctx = 40"
  "table_id freed_ctx = table_id example_ctx" "table_timeout freed_ctx = 3600"
  by (simp_all add: freed_ctx_def)

lemma example_free [simp]: "ctx_free freed_ctx AF_INET i = (i < 64)"
  "family_map example_ctx AF_INET6 = None" "family_map example_ctx AF_UNSPEC = None"
proof -
  have "family_map example_ctx AF_INET = Some (replicate 2 0xFFFFFFFF)" by (simp add: numeral_2_eq_2)
  then show "ctx_free freed_ctx AF_INET i = (i < 64)"
    by (simp add: freed_ctx_def ctx_free_def del: example_ctx_simps)
qed (simp_all add: example_ctx_def family_map_def calloc_ctx_def af_defs)

lemma eth1_row [simp]:
  "row_fam (row_of eth1_req 10000 e) = AF_INET" "row_tbl (row_of eth1_req 10000 e) = 10000"
  "table_id example_ctx 10000 = 0" "row_id freed_ctx (row_of eth1_req 10000 e) = 0"
  by (simp_all add: row_fam_def row_tbl_def row_id_def table_id_def)

lemma freed_wf [simp]: "srv_wf freed_ctx"
  by (simp add: srv_wf_def row_ok_def primary_key_def valid_family_def)

lemma leased_synced: "synced leased_ctx"
proof -
  have "ctx_free leased_ctx f i = (\<not> holds leased_ctx f i)"
    if f: "valid_family f" "family_map leased_ctx f \<noteq> None" "i < unat (num_tables leased_ctx)" for f i
  proof -
    have "family_map example_ctx f \<noteq> None" using f(2) by (simp add: leased_ctx_def)
    with f(1) have "f = AF_INET" by (auto simp: valid_family_def)
    then show ?thesis
      using f(3) by (auto simp: leased_ctx_def ctx_free_toggle holds_def same_map_def)
  qed
  then show ?thesis
    by (simp add: synced_def leased_ctx_def one_lease_def)
qed

lemma leased_inv: "srv_inv now leased_ctx"
  using leased_synced by (auto simp: srv_inv_def synced_def leased_ctx_def intro!: synced_live)

lemma freed_inv: "srv_inv 600 freed_ctx"
  by (simp add: srv_inv_def live_taken_def c_int_def sint_u32_small)

lemma family_served_iff: "family_served ctx f = (valid_family f \<and> family_map ctx f \<noteq> None)"
  by (auto simp: family_served_def valid_family_def family_map_def af_defs)

lemma leased_served: "family_served leased_ctx (req_family eth1_req)" "family_served leased_ctx (req_family wwan0_req)"
  by (simp_all add: leased_ctx_def family_served_iff valid_family_def)

definition ok_env :: "int \<Rightarrow> req_env" where
  "ok_env now = \<lparr>clock = Some now, get_rc = sql_ok, upd_rc = sql_ok, ins_rc = sql_ok\<rparr>"

theorem handlers_keep_invariant_witness:
  "srv_inv 100 leased_ctx \<and> clock_ok 100 \<and>
   (\<exists>ctx'. table_allocator_server_clients_delete_dead_leases (Some 100) sql_ok sql_ok leased_ctx = Inr ctx'
     \<and> srv_inv 100 ctx')"
proof -
  have "clock_ok 100" by (simp add: clock_ok_def)
  with handlers_keep_invariant [OF leased_inv this, of undefined undefined sql_ok sql_ok] leased_inv
  show ?thesis by auto
qed

lemma leased_request:
  assumes "srv_wf c" and "family_served c AF_INET" and "table_timeout c = 3600"
    and "rt_rows c = [row_of eth1_req 10000 500]"
  shows "\<exists>ctx'. table_allocator_server_clients_handle_req (ok_env 100) c eth1_req
    = Inr (Some (10000, 3700), ctx')"
proof -
  have get: "table_allocator_sqlite_get_table sql_ok c eth1_req = 10000"
    by (simp add: get_table_leased leased_table_find client_key_def assms(4))
  from assms(1) show ?thesis
  proof (cases rule: handle_req_cases [where env = "ok_env 100" and rq = eth1_req])
    case (again now r ctx1 ctx2 ok)
    then show ?thesis using get assms(3) by (auto simp: ok_env_def update_ok)
  qed (use assms(2) get in \<open>auto simp: ok_env_def\<close>)
qed

lemma leased_facts: "srv_wf leased_ctx" "family_served leased_ctx AF_INET" "table_timeout leased_ctx = 3600"
  "rt_rows leased_ctx = [row_of eth1_req 10000 500]"
  using leased_synced leased_served by (simp_all add: synced_def leased_ctx_def)

theorem granted_table_exclusive_witness:
  "\<exists>ctx'. table_allocator_server_clients_handle_req (ok_env 100) leased_ctx eth1_req
      = Inr (Some (10000, 3700), ctx')
    \<and> (\<forall>r \<in> set (rt_rows ctx'). row_fam r = req_family eth1_req \<and> row_tbl r = 10000 \<longrightarrow> client_of r = client_key eth1_req)"
proof -
  obtain ctx' where "table_allocator_server_clients_handle_req (ok_env 100) leased_ctx eth1_req
      = Inr (Some (10000, 3700), ctx')" using leased_request [OF leased_facts] by blast
  with granted_table_exclusive [OF leased_inv this] show ?thesis by blast
qed

theorem request_refines_spec_witness:
  "\<exists>res ctx'. table_allocator_server_clients_handle_req (ok_env 100) leased_ctx wwan0_req = Inr (res, ctx')
    \<and> synced ctx' \<and> request_spec (table_number leased_ctx) 40 (leased_table (rt_rows leased_ctx))
      (client_key wwan0_req) (map_option (\<lambda>(t, e). sint t) res) (leased_table (rt_rows ctx'))"
proof -
  have "all_ok 100 (ok_env 100)" by (simp add: all_ok_def ok_env_def)
  moreover have "unat (num_tables leased_ctx) = 40" by (simp add: leased_ctx_def)
  ultimately show ?thesis
    using request_refines_spec [OF leased_synced leased_served(2)] by auto
qed

theorem release_refines_spec_witness:
  "\<exists>ctx'. table_allocator_server_clients_handle_release sql_ok sql_ok leased_ctx eth1_req = Inr (True, ctx')
    \<and> synced ctx' \<and> leased_table (rt_rows ctx') = (leased_table (rt_rows leased_ctx))(client_key eth1_req := None)"
  by (rule release_refines_spec [OF leased_synced])

theorem sweep_refines_spec_witness:
  "\<exists>ctx'. table_allocator_server_clients_delete_dead_leases (Some 600) sql_ok sql_ok leased_ctx = Inr ctx'
    \<and> synced ctx' \<and> rt_rows ctx' = filter (\<lambda>r. 600 < LeaseExpires r) (rt_rows leased_ctx)"
  using leased_inv [of 600]
  by (intro sweep_refines_spec [OF leased_synced]) (simp_all add: srv_inv_def clock_ok_def)

theorem sweep_of_foreign_row_faults_witness:
  "table_allocator_server_clients_delete_dead_leases (Some 600) sql_ok sql_ok
     (example_ctx\<lparr>rt_rows := [row_of eth1_req 20000 500]\<rparr>) = Inl Out_of_bounds"
proof -
  let ?ctx = "example_ctx\<lparr>rt_rows := [row_of eth1_req 20000 500]\<rparr>"
  have "capacity ?ctx \<le> row_id ?ctx (row_of eth1_req 20000 500)" "row_fam (row_of eth1_req 20000 500) = AF_INET"
    by (simp_all add: row_id_def row_tbl_def row_fam_def table_id_def)
  then show ?thesis
    using sweep_of_foreign_row_faults [of ?ctx "[]" "row_of eth1_req 20000 500" "[]" 600 sql_ok sql_ok]
    by (simp add: clock_ok_def c_int_def sint_u32_small)
qed

end
