(* ===== verification/Json_Messages.thy ===== *)
theory Json_Messages
  imports Server_State
begin

text \<open>
  The messages of \<^verbatim>\<open>table_allocator_shared_json.c\<close>. json-c is not part of the
  repository: parsing, printing and reading an integer are the fields of a record \<open>jsonc\<close> the
  functions take, its objects are values of the datatype \<open>json\<close>, and the allocations of its
  constructors succeed or fail by an argument. What the round trips rely on is \<open>jsonc_ok\<close>:
  RFC 8259 text without white space for flat objects of non-negative 64-bit integers and strings that
  need no escape, parsed back whatever follows the closing brace, and integers cut to the range
  of \<open>int32_t\<close>.
\<close>

section \<open>json-c\<close>

datatype json =
    JNull
  | JBool bool
  | JInt int
  | JDouble
  | JString string
  | JArray "json list"
  | JObject "(string \<times> json) list"

record jsonc =
  jc_parse :: "string \<Rightarrow> json option"    \<comment> \<open>\<open>json_tokener_parse\<close>\<close>
  jc_print :: "json \<Rightarrow> string"           \<comment> \<open>\<open>json_object_to_json_string_ext\<close>, plain\<close>
  jc_get_int :: "int \<Rightarrow> int"             \<comment> \<open>\<open>json_object_get_int\<close> on an integer\<close>

definition safe_char :: "char \<Rightarrow> bool" where
  "safe_char c \<longleftrightarrow> 32 \<le> (of_char c :: nat) \<and> (of_char c :: nat) < 127 \<and> c \<notin> {CHR 0x22, CHR 0x5C, CHR 0x2F}"

text \<open>Integers are those of \<open>int64_t\<close>, in which json-c keeps them.\<close>

definition int64 :: "int \<Rightarrow> bool" where
  "int64 n \<longleftrightarrow> - (2 ^ 63) \<le> n \<and> n < 2 ^ 63"

fun flat_value :: "json \<Rightarrow> bool" where
  "flat_value (JInt n) = (0 \<le> n \<and> int64 n)"
| "flat_value (JString s) = list_all safe_char s"
| "flat_value _ = False"

definition flat :: "(string \<times> json) list \<Rightarrow> bool" where
  "flat kvs \<longleftrightarrow> kvs \<noteq> [] \<and> distinct (map fst kvs) \<and> (\<forall>(k, v) \<in> set kvs. list_all safe_char k \<and> flat_value v)"

definition quoted :: "string \<Rightarrow> string" where
  "quoted s = CHR 0x22 # s @ [CHR 0x22]"

fun value_text :: "json \<Rightarrow> string" where
  "value_text (JInt n) = dec (nat n)"
| "value_text (JString s) = quoted s"
| "value_text _ = []"

definition member_text :: "string \<times> json \<Rightarrow> string" where
  "member_text kv = quoted (fst kv) @ '':'' @ value_text (snd kv)"

fun members_text :: "(string \<times> json) list \<Rightarrow> string" where
  "members_text [] = ''}''"
| "members_text [kv] = member_text kv @ ''}''"
| "members_text (kv # kvs) = member_text kv @ '','' @ members_text kvs"

definition flat_text :: "(string \<times> json) list \<Rightarrow> string" where
  "flat_text kvs = ''{'' @ members_text kvs"

definition int32_of :: "int \<Rightarrow> int" where
  "int32_of n = (if n < - (2 ^ 31) then - (2 ^ 31) else if n < 2 ^ 31 then n else 2 ^ 31 - 1)"

definition jsonc_ok :: "jsonc \<Rightarrow> bool" where
  "jsonc_ok jc \<longleftrightarrow>
     (\<forall>kvs. flat kvs \<longrightarrow> jc_print jc (JObject kvs) = flat_text kvs
        \<and> (\<forall>rest. jc_parse jc (flat_text kvs @ rest) = Some (JObject kvs)))
     \<and> (\<forall>n. int64 n \<longrightarrow> jc_get_int jc n = int32_of n)"

lemma int64_word [simp]: "int64 (uint (b :: u8))" "int64 (uint (w :: u32))"
proof -
  have small: "int64 n" if "0 \<le> n" "n < 2 ^ 32" for n using that by (simp add: int64_def)
  have "uint b < 2 ^ 8" using unsigned_less [of b] by simp
  then show "int64 (uint b)" by (intro small) simp_all
  have "uint w < 2 ^ 32" using unsigned_less [of w] by simp
  then show "int64 (uint w)" by (intro small) simp_all
qed

section \<open>Constants\<close>

definition TA_SHARED_JSON_ADDRESS_KEY :: string where "TA_SHARED_JSON_ADDRESS_KEY = ''address''"
definition TA_SHARED_JSON_FAMILY_KEY :: string where "TA_SHARED_JSON_FAMILY_KEY = ''addr_family''"
definition TA_SHARED_JSON_IFNAME_KEY :: string where "TA_SHARED_JSON_IFNAME_KEY = ''ifname''"
definition TA_SHARED_JSON_TAG_KEY :: string where "TA_SHARED_JSON_TAG_KEY = ''tag''"
definition TA_SHARED_JSON_CMD_KEY :: string where "TA_SHARED_JSON_CMD_KEY = ''cmd''"
definition TA_SHARED_JSON_VERSION_KEY :: string where "TA_SHARED_JSON_VERSION_KEY = ''version''"
definition TA_SHARED_JSON_TABLE_KEY :: string where "TA_SHARED_JSON_TABLE_KEY = ''table''"
definition TA_SHARED_JSON_LEASE_EXPIRES_KEY :: string where
  "TA_SHARED_JSON_LEASE_EXPIRES_KEY = ''lease_expires''"

lemmas key_defs = TA_SHARED_JSON_ADDRESS_KEY_def TA_SHARED_JSON_FAMILY_KEY_def
  TA_SHARED_JSON_IFNAME_KEY_def TA_SHARED_JSON_TAG_KEY_def TA_SHARED_JSON_CMD_KEY_def
  TA_SHARED_JSON_VERSION_KEY_def TA_SHARED_JSON_TABLE_KEY_def TA_SHARED_JSON_LEASE_EXPIRES_KEY_def

definition TA_SHARED_CMD_REQ :: u8 where "TA_SHARED_CMD_REQ = 0"
definition TA_SHARED_CMD_REL :: u8 where "TA_SHARED_CMD_REL = 1"
definition TA_SHARED_CMD_RESP :: u8 where "TA_SHARED_CMD_RESP = 2"
definition TA_VERSION :: u8 where "TA_VERSION = 1"

lemmas cmd_defs = TA_SHARED_CMD_REQ_def TA_SHARED_CMD_REL_def TA_SHARED_CMD_RESP_def TA_VERSION_def

section \<open>Building messages\<close>

text \<open>
  Each constructor call can fail; \<open>alloc n\<close> is the outcome of the \<open>n\<close>-th call of the function.
  The keys are distinct, so \<open>json_object_object_add\<close> appends.
\<close>

fun add_fields :: "(nat \<Rightarrow> bool) \<Rightarrow> nat \<Rightarrow> (string \<times> json) list \<Rightarrow> (string \<times> json) list \<Rightarrow> json option" where
  "add_fields alloc n [] obj = Some (JObject obj)"
| "add_fields alloc n (kv # kvs) obj =
     (if \<not> alloc n then None else add_fields alloc (Suc n) kvs (obj @ [kv]))"

definition request_fields :: "string \<Rightarrow> string \<Rightarrow> string \<Rightarrow> u8 \<Rightarrow> u8 \<Rightarrow> (string \<times> json) list" where
  "request_fields address ifname tag addr_family cmd =
     [(TA_SHARED_JSON_ADDRESS_KEY, JString address), (TA_SHARED_JSON_IFNAME_KEY, JString ifname)]
     @ (if tag \<noteq> [] then [(TA_SHARED_JSON_TAG_KEY, JString tag)] else [])
     @ [(TA_SHARED_JSON_FAMILY_KEY, JInt (uint addr_family)),
        (TA_SHARED_JSON_CMD_KEY, JInt (uint cmd)),
        (TA_SHARED_JSON_VERSION_KEY, JInt (uint TA_VERSION))]"

definition table_allocator_shared_json_create_req ::
  "(nat \<Rightarrow> bool) \<Rightarrow> string \<Rightarrow> string \<Rightarrow> string \<Rightarrow> u8 \<Rightarrow> u8 \<Rightarrow> json option" where
  "table_allocator_shared_json_create_req alloc address ifname tag addr_family cmd =
     (if \<not> alloc 0 then None
      else add_fields alloc 1 (request_fields address ifname tag addr_family cmd) [])"

definition response_fields :: "u32 \<Rightarrow> u32 \<Rightarrow> (string \<times> json) list" where
  "response_fields table lease_expires =
     [(TA_SHARED_JSON_VERSION_KEY, JInt (uint TA_VERSION)),
      (TA_SHARED_JSON_CMD_KEY, JInt (uint TA_SHARED_CMD_RESP)),
      (TA_SHARED_JSON_TABLE_KEY, JInt (uint table)),
      (TA_SHARED_JSON_LEASE_EXPIRES_KEY, JInt (uint lease_expires))]"

text \<open>The length written and the buffer; 0 is the failure of the C function.\<close>

definition table_allocator_shared_json_gen_response ::
  "jsonc \<Rightarrow> (nat \<Rightarrow> bool) \<Rightarrow> u32 \<Rightarrow> u32 \<Rightarrow> string \<Rightarrow> (nat \<times> string) res" where
  "table_allocator_shared_json_gen_response jc alloc table lease_expires buf =
     (if \<not> alloc 0 then Inr (0, buf)
      else case add_fields alloc 1 (response_fields table lease_expires) [] of
        None \<Rightarrow> Inr (0, buf)
      | Some obj \<Rightarrow>
          let json_str = cstr (jc_print jc obj) in
          if length json_str \<ge> TA_SHARED_MAX_JSON_LEN then Inr (0, buf)
          else bindR (memcpy_buf buf json_str) (\<lambda>buf'. Inr (length json_str, buf')))"

section \<open>Parsing messages\<close>

text \<open>
  \<open>json_object_object_foreach\<close> reads the hash table of its argument, a null pointer if the
  text is JSON but not an object. A string value is read as a C string.
\<close>

definition foreach_member ::
  "json \<Rightarrow> (string \<times> json \<Rightarrow> 's \<Rightarrow> 's res) \<Rightarrow> 's \<Rightarrow> 's res" where
  "foreach_member obj f s =
     (case obj of JObject kvs \<Rightarrow> foldR f kvs s | _ \<Rightarrow> Inl Null_pointer)"

definition parse_seq_member :: "jsonc \<Rightarrow> string \<times> json \<Rightarrow> tas_client_req \<Rightarrow> tas_client_req res" where
  "parse_seq_member jc kv rq =
     (case kv of (key, val) \<Rightarrow>
        case val of
          JString s \<Rightarrow>
            let str_val = cstr s in
            if cstr key = TA_SHARED_JSON_ADDRESS_KEY then
              if length str_val < INET6_ADDRSTRLEN
              then bindR (memcpy_buf (req_address rq) str_val) (\<lambda>b. Inr (rq\<lparr>req_address := b\<rparr>))
              else Inr rq
            else if cstr key = TA_SHARED_JSON_IFNAME_KEY then
              if length str_val < IFNAMSIZ
              then bindR (memcpy_buf (req_ifname rq) str_val) (\<lambda>b. Inr (rq\<lparr>req_ifname := b\<rparr>))
              else Inr rq
            else if cstr key = TA_SHARED_JSON_TAG_KEY then
              if length str_val < TA_SHARED_MAX_TAG_SIZE
              then bindR (memcpy_buf (req_tag rq) str_val) (\<lambda>b. Inr (rq\<lparr>req_tag := b\<rparr>))
              else Inr rq
            else Inr rq
        | JInt n \<Rightarrow>
            if cstr key = TA_SHARED_JSON_FAMILY_KEY then
              Inr (rq\<lparr>req_family := word_of_int (jc_get_int jc n)\<rparr>)
            else if cstr key = TA_SHARED_JSON_CMD_KEY then
              Inr (rq\<lparr>req_cmd := word_of_int (jc_get_int jc n)\<rparr>)
            else if cstr key = TA_SHARED_JSON_VERSION_KEY then
              Inr (rq\<lparr>req_ver := word_of_int (jc_get_int jc n)\<rparr>)
            else Inr rq
        | _ \<Rightarrow> Inr rq)"

definition table_allocator_shared_json_parse_seq ::
  "jsonc \<Rightarrow> string \<Rightarrow> tas_client_req \<Rightarrow> (bool \<times> tas_client_req) res" where
  "table_allocator_shared_json_parse_seq jc json_obj_char rq =
     (case jc_parse jc json_obj_char of
        None \<Rightarrow> Inr (False, rq)
      | Some obj \<Rightarrow> bindR (foreach_member obj (parse_seq_member jc) rq) (\<lambda>rq'. Inr (True, rq')))"

record client_reply =
  rep_ver :: u8
  rep_cmd :: u8
  rep_table :: u32
  rep_lease :: u32

definition parse_reply_member :: "jsonc \<Rightarrow> string \<times> json \<Rightarrow> client_reply \<Rightarrow> client_reply res" where
  "parse_reply_member jc kv rp =
     (case kv of (key, val) \<Rightarrow>
        case val of
          JInt n \<Rightarrow>
            if cstr key = TA_SHARED_JSON_VERSION_KEY then
              Inr (rp\<lparr>rep_ver := word_of_int (jc_get_int jc n)\<rparr>)
            else if cstr key = TA_SHARED_JSON_CMD_KEY then
              Inr (rp\<lparr>rep_cmd := word_of_int (jc_get_int jc n)\<rparr>)
            else if cstr key = TA_SHARED_JSON_TABLE_KEY then
              Inr (rp\<lparr>rep_table := word_of_int (jc_get_int jc n)\<rparr>)
            else if cstr key = TA_SHARED_JSON_LEASE_EXPIRES_KEY then
              Inr (rp\<lparr>rep_lease := word_of_int (jc_get_int jc n)\<rparr>)
            else Inr rp
        | _ \<Rightarrow> Inr rp)"

text \<open>The outputs the caller passes keep their values where the reply has no such member.\<close>

definition tables_allocator_shared_json_parse_client_reply ::
  "jsonc \<Rightarrow> string \<Rightarrow> client_reply \<Rightarrow> (bool \<times> client_reply) res" where
  "tables_allocator_shared_json_parse_client_reply jc json_obj_str rp =
     (case jc_parse jc json_obj_str of
        None \<Rightarrow> Inr (False, rp)
      | Some obj \<Rightarrow> bindR (foreach_member obj (parse_reply_member jc) rp) (\<lambda>rp'. Inr (True, rp')))"

section \<open>Lemmas\<close>

lemma add_fields_all: "(\<And>n. alloc n) \<Longrightarrow> add_fields alloc n kvs obj = Some (JObject (obj @ kvs))"
  by (induction kvs arbitrary: n obj) simp_all

lemma add_fields_cases:
  obtains (failed) "add_fields alloc n kvs obj = None" "\<exists>i. \<not> alloc i"
  | (built) "add_fields alloc n kvs obj = Some (JObject (obj @ kvs))"
proof -
  have "add_fields alloc n kvs obj = Some (JObject (obj @ kvs)) \<or>
      add_fields alloc n kvs obj = None \<and> (\<exists>i. \<not> alloc i)"
  proof (induction kvs arbitrary: n obj)
    case (Cons kv kvs)
    from Cons.IH [of "Suc n" "obj @ [kv]"] show ?case by auto
  qed simp
  then show thesis using that by blast
qed

lemma request_flat:
  assumes "list_all safe_char address" "list_all safe_char ifname" "list_all safe_char tag"
  shows "flat (request_fields address ifname tag addr_family cmd)"
  using assms by (auto simp: flat_def request_fields_def key_defs safe_char_def)

lemma response_flat: "flat (response_fields table lease_expires)"
  by (simp add: flat_def response_fields_def key_defs safe_char_def)

lemma cstr_key [simp]: "NUL \<notin> set k \<Longrightarrow> cstr k = k"
  by (rule cstr_idem)

lemma safe_no_nul: "list_all safe_char s \<Longrightarrow> NUL \<notin> set s"
proof -
  have "\<not> safe_char NUL" by (simp add: safe_char_def)
  then show "list_all safe_char s \<Longrightarrow> NUL \<notin> set s" unfolding list_all_iff by blast
qed

lemma value_text_no_nul: "flat_value v \<Longrightarrow> NUL \<notin> set (value_text v)"
  using safe_no_nul by (cases v) (simp_all add: quoted_def dec_special(1))

lemma member_text_no_nul:
  "list_all safe_char (fst kv) \<Longrightarrow> flat_value (snd kv) \<Longrightarrow> NUL \<notin> set (member_text kv)"
  using safe_no_nul value_text_no_nul by (simp add: member_text_def quoted_def)

lemma members_text_no_nul:
  "\<forall>kv \<in> set kvs. NUL \<notin> set (member_text kv) \<Longrightarrow> NUL \<notin> set (members_text kvs)"
  by (induction kvs rule: members_text.induct) simp_all

lemma flat_text_no_nul:
  assumes "flat kvs"
  shows "NUL \<notin> set (flat_text kvs)"
proof -
  have "NUL \<notin> set (member_text kv)" if "kv \<in> set kvs" for kv
    using assms that by (intro member_text_no_nul) (auto simp: flat_def)
  then show ?thesis using members_text_no_nul by (auto simp: flat_text_def)
qed

lemma get_int_u8: "jsonc_ok jc \<Longrightarrow> jc_get_int jc (uint (w :: u8)) = uint w"
  using uint_lt2p [of w] order_trans [of "- (2 ^ 31)" 0 "uint w"]
  unfolding jsonc_ok_def int32_of_def by (simp add: not_less)

text \<open>The string fields of a request stay NUL-terminated whatever is parsed into them.\<close>

definition req_bufs :: "tas_client_req \<Rightarrow> bool" where
  "req_bufs rq \<longleftrightarrow> terminated INET6_ADDRSTRLEN (req_address rq) \<and> terminated IFNAMSIZ (req_ifname rq)
     \<and> terminated TA_SHARED_MAX_TAG_SIZE (req_tag rq)"

lemma req_bufs_zero: "req_bufs zero_req"
  by (simp add: req_bufs_def zero_req_def size_defs terminated_zero_buf)

lemma parse_seq_member_bufs:
  assumes "req_bufs rq"
  shows "\<exists>rq'. parse_seq_member jc kv rq = Inr rq' \<and> req_bufs rq'"
proof -
  obtain key val where kv: "kv = (key, val)" by fastforce
  show ?thesis
  proof (cases "\<exists>s. val = JString s")
    case True
    then obtain s where val: "val = JString s" by blast
    have "length (cstr s) < INET6_ADDRSTRLEN \<Longrightarrow> \<exists>b. memcpy_buf (req_address rq) (cstr s) = Inr b \<and> terminated INET6_ADDRSTRLEN b"
      "length (cstr s) < IFNAMSIZ \<Longrightarrow> \<exists>b. memcpy_buf (req_ifname rq) (cstr s) = Inr b \<and> terminated IFNAMSIZ b"
      "length (cstr s) < TA_SHARED_MAX_TAG_SIZE \<Longrightarrow> \<exists>b. memcpy_buf (req_tag rq) (cstr s) = Inr b \<and> terminated TA_SHARED_MAX_TAG_SIZE b"
      using assms by (simp_all add: req_bufs_def terminated_memcpy)
    with assms show ?thesis
      by (auto simp: kv val parse_seq_member_def Let_def req_bufs_def)
  qed (use assms in \<open>auto simp: kv parse_seq_member_def req_bufs_def split: json.split\<close>)
qed

text \<open>Text that is not JSON, or a JSON object.\<close>

fun object_or_junk :: "json option \<Rightarrow> bool" where
  "object_or_junk None = True"
| "object_or_junk (Some (JObject kvs)) = True"
| "object_or_junk (Some _) = False"

lemma parse_seq_total:
  assumes "object_or_junk (jc_parse jc txt)" and "req_bufs rq"
  shows "\<exists>ok rq'. table_allocator_shared_json_parse_seq jc txt rq = Inr (ok, rq') \<and> req_bufs rq'"
proof (cases "jc_parse jc txt")
  case (Some obj)
  with assms(1) obtain kvs where obj: "obj = JObject kvs" by (cases obj) simp_all
  have "\<exists>rq'. foldR (parse_seq_member jc) kvs rq = Inr rq' \<and> req_bufs rq'"
    using assms(2) parse_seq_member_bufs by (intro foldR_total) auto
  then show ?thesis by (auto simp: table_allocator_shared_json_parse_seq_def foreach_member_def Some obj)
qed (use assms in \<open>auto simp: table_allocator_shared_json_parse_seq_def\<close>)

lemma cstr_keys [simp]:
  "cstr TA_SHARED_JSON_ADDRESS_KEY = TA_SHARED_JSON_ADDRESS_KEY"
  "cstr TA_SHARED_JSON_FAMILY_KEY = TA_SHARED_JSON_FAMILY_KEY"
  "cstr TA_SHARED_JSON_IFNAME_KEY = TA_SHARED_JSON_IFNAME_KEY"
  "cstr TA_SHARED_JSON_TAG_KEY = TA_SHARED_JSON_TAG_KEY"
  "cstr TA_SHARED_JSON_CMD_KEY = TA_SHARED_JSON_CMD_KEY"
  "cstr TA_SHARED_JSON_VERSION_KEY = TA_SHARED_JSON_VERSION_KEY"
  "cstr TA_SHARED_JSON_TABLE_KEY = TA_SHARED_JSON_TABLE_KEY"
  "cstr TA_SHARED_JSON_LEASE_EXPIRES_KEY = TA_SHARED_JSON_LEASE_EXPIRES_KEY"
  by (simp_all add: key_defs)

lemma keys_distinct [simp]:
  "TA_SHARED_JSON_IFNAME_KEY \<noteq> TA_SHARED_JSON_ADDRESS_KEY"
  "TA_SHARED_JSON_TAG_KEY \<noteq> TA_SHARED_JSON_ADDRESS_KEY"
  "TA_SHARED_JSON_TAG_KEY \<noteq> TA_SHARED_JSON_IFNAME_KEY"
  "TA_SHARED_JSON_CMD_KEY \<noteq> TA_SHARED_JSON_FAMILY_KEY"
  "TA_SHARED_JSON_VERSION_KEY \<noteq> TA_SHARED_JSON_FAMILY_KEY"
  "TA_SHARED_JSON_VERSION_KEY \<noteq> TA_SHARED_JSON_CMD_KEY"
  "TA_SHARED_JSON_CMD_KEY \<noteq> TA_SHARED_JSON_VERSION_KEY"
  "TA_SHARED_JSON_TABLE_KEY \<noteq> TA_SHARED_JSON_VERSION_KEY"
  "TA_SHARED_JSON_TABLE_KEY \<noteq> TA_SHARED_JSON_CMD_KEY"
  "TA_SHARED_JSON_LEASE_EXPIRES_KEY \<noteq> TA_SHARED_JSON_VERSION_KEY"
  "TA_SHARED_JSON_LEASE_EXPIRES_KEY \<noteq> TA_SHARED_JSON_CMD_KEY"
  "TA_SHARED_JSON_LEASE_EXPIRES_KEY \<noteq> TA_SHARED_JSON_TABLE_KEY"
  by (simp_all add: key_defs)

text \<open>The request that reaches the server for given arguments of \<open>create_req\<close>.\<close>

definition sent_req :: "string \<Rightarrow> string \<Rightarrow> string \<Rightarrow> u8 \<Rightarrow> u8 \<Rightarrow> tas_client_req" where
  "sent_req address ifname tag addr_family cmd =
     \<lparr>req_ifname = ifname @ zero_buf (IFNAMSIZ - length ifname),
      req_tag = tag @ zero_buf (TA_SHARED_MAX_TAG_SIZE - length tag),
      req_address = address @ zero_buf (INET6_ADDRSTRLEN - length address),
      req_ver = TA_VERSION, req_cmd = cmd, req_family = addr_family\<rparr>"

definition req_strings :: "string \<Rightarrow> string \<Rightarrow> string \<Rightarrow> bool" where
  "req_strings address ifname tag \<longleftrightarrow>
     list_all safe_char address \<and> list_all safe_char ifname \<and> list_all safe_char tag
     \<and> length address < INET6_ADDRSTRLEN \<and> length ifname < IFNAMSIZ \<and> length tag < TA_SHARED_MAX_TAG_SIZE"

lemma parse_request_text:
  assumes "jsonc_ok jc" and "req_strings address ifname tag"
  shows "table_allocator_shared_json_parse_seq jc
      (flat_text (request_fields address ifname tag addr_family cmd) @ rest) zero_req
    = Inr (True, sent_req address ifname tag addr_family cmd)"
proof -
  let ?kvs = "request_fields address ifname tag addr_family cmd"
  have s: "list_all safe_char address" "list_all safe_char ifname" "list_all safe_char tag"
    and len: "length address < INET6_ADDRSTRLEN" "length ifname < IFNAMSIZ" "length tag < TA_SHARED_MAX_TAG_SIZE"
    using assms(2) by (simp_all add: req_strings_def)
  have p: "jc_parse jc (flat_text ?kvs @ rest) = Some (JObject ?kvs)"
    using assms(1) request_flat [OF s] by (simp add: jsonc_ok_def)
  have c: "cstr address = address" "cstr ifname = ifname" "cstr tag = tag"
    using s by (simp_all add: cstr_idem safe_no_nul)
  show ?thesis
    using p len
    by (simp add: table_allocator_shared_json_parse_seq_def foreach_member_def request_fields_def
        parse_seq_member_def c zero_req_def memcpy_zero_buf get_int_u8 [OF assms(1)] sent_req_def)
qed

lemma length_dec_le: "n < 10 ^ k \<Longrightarrow> 0 < k \<Longrightarrow> length (dec n) \<le> k"
proof (induction k arbitrary: n)
  case (Suc k)
  show ?case
  proof (cases "n < 10")
    case True
    then show ?thesis by (simp add: dec.simps [of n])
  next
    case False
    then have "0 < k" using Suc.prems(1) by (cases k) simp_all
    with Suc have "length (dec (n div 10)) \<le> k" by (simp add: div_less_iff_less_mult mult.commute)
    with False show ?thesis by (simp add: dec.simps [of n])
  qed
qed simp

lemma response_text_length:
  "length (flat_text (response_fields table lease_expires)) \<le> 72"
proof -
  have "length (dec (unat w)) \<le> 10" for w :: u32
  proof (rule length_dec_le)
    have "unat w < 2 ^ 32" using unsigned_less [of w] by simp
    also have "\<dots> < 10 ^ 10" by simp
    finally show "unat w < 10 ^ 10" .
  qed simp
  from this [of table] this [of lease_expires] length_dec_3 [of 1] length_dec_3 [of 2] show ?thesis
    by (simp add: flat_text_def response_fields_def member_text_def quoted_def key_defs cmd_defs)
qed

text \<open>A table or time as the reply carries it: cut to the largest \<open>int32_t\<close>.\<close>

definition reply_int :: "u32 \<Rightarrow> u32" where
  "reply_int w = min w 0x7FFFFFFF"

lemma reply_int_clamp: "jsonc_ok jc \<Longrightarrow> word_of_int (jc_get_int jc (uint (w :: u32))) = reply_int w"
proof -
  have "\<not> uint w < - (2 ^ 31)" using uint_ge_0 [of w] by (simp add: not_less order_trans [of _ 0])
  moreover have "(uint w < 2 ^ 31) = (w \<le> 0x7FFFFFFF)"
    using zle_diff1_eq [of "uint w" "2 ^ 31"] by (simp add: word_le_def)
  ultimately show "jsonc_ok jc \<Longrightarrow> ?thesis"
    by (simp add: jsonc_ok_def int32_of_def reply_int_def min_def)
qed

lemma reply_int_id: "w < 2 ^ 31 \<Longrightarrow> reply_int w = w"
  by (simp add: reply_int_def min_def word_le_def word_less_def)

lemma gen_response_text:
  fixes table lease_expires :: u32
  assumes "jsonc_ok jc" and "\<And>n. alloc n" and "TA_SHARED_MAX_JSON_LEN \<le> length buf"
  defines "txt \<equiv> flat_text (response_fields table lease_expires)"
  shows "table_allocator_shared_json_gen_response jc alloc table lease_expires buf
    = Inr (length txt, txt @ drop (length txt) buf)"
proof -
  have "cstr (jc_print jc (JObject (response_fields table lease_expires))) = txt"
    using assms(1) response_flat flat_text_no_nul [OF response_flat]
    by (simp add: txt_def jsonc_ok_def cstr_idem)
  moreover have "length txt < TA_SHARED_MAX_JSON_LEN"
    using response_text_length [of table lease_expires] by (simp add: txt_def size_defs)
  ultimately show ?thesis
    using assms(2,3)
    by (simp add: table_allocator_shared_json_gen_response_def add_fields_all memcpy_buf_def)
qed

lemma parse_response_text:
  assumes "jsonc_ok jc"
  shows "tables_allocator_shared_json_parse_client_reply jc
      (flat_text (response_fields table lease_expires) @ rest) rp
    = Inr (True, \<lparr>rep_ver = TA_VERSION, rep_cmd = TA_SHARED_CMD_RESP,
        rep_table = reply_int table, rep_lease = reply_int lease_expires\<rparr>)"
proof -
  have "jc_parse jc (flat_text (response_fields table lease_expires) @ rest)
      = Some (JObject (response_fields table lease_expires))"
    using assms response_flat by (simp add: jsonc_ok_def)
  then show ?thesis
    by (simp add: tables_allocator_shared_json_parse_client_reply_def foreach_member_def
        response_fields_def parse_reply_member_def get_int_u8 [OF assms] reply_int_clamp [OF assms])
qed

section \<open>Properties\<close>

text \<open>C22: parsing a request never writes outside the fields of the request nor unterminates
  them, whatever the text is; it dereferences a null pointer exactly when the text is JSON but not an
  object.\<close>

theorem parse_seq_bounds:
  assumes "req_bufs rq"
  shows "case jc_parse jc txt of
      None \<Rightarrow> table_allocator_shared_json_parse_seq jc txt rq = Inr (False, rq)
    | Some (JObject kvs) \<Rightarrow> (\<exists>rq'. table_allocator_shared_json_parse_seq jc txt rq = Inr (True, rq') \<and> req_bufs rq')
    | Some _ \<Rightarrow> table_allocator_shared_json_parse_seq jc txt rq = Inl Null_pointer"
proof -
  have "\<exists>rq'. foldR (parse_seq_member jc) kvs rq = Inr rq' \<and> req_bufs rq'" for kvs
    using assms parse_seq_member_bufs by (intro foldR_total) auto
  then show ?thesis
    by (auto simp: table_allocator_shared_json_parse_seq_def foreach_member_def res_simps
        split: option.split json.split)
qed

text \<open>C20: the request the client builds is the one the server parses, field by field, even
  when older bytes follow it in the receive buffer.\<close>

theorem request_roundtrip:
  assumes "jsonc_ok jc" and "req_strings address ifname tag"
    and "table_allocator_shared_json_create_req alloc address ifname tag addr_family cmd = Some obj"
  shows "table_allocator_shared_json_parse_seq jc (jc_print jc obj @ rest) zero_req
    = Inr (True, sent_req address ifname tag addr_family cmd)"
proof -
  have "obj = JObject (request_fields address ifname tag addr_family cmd)"
    using assms(3) add_fields_cases [of alloc 1 "request_fields address ifname tag addr_family cmd" "[]"]
    by (auto simp: table_allocator_shared_json_create_req_def split: if_splits)
  moreover have "flat (request_fields address ifname tag addr_family cmd)"
    using assms(2) by (intro request_flat) (simp_all add: req_strings_def)
  ultimately show ?thesis
    using assms(1) parse_request_text [OF assms(1,2)] by (simp add: jsonc_ok_def)
qed

text \<open>C21: the server's reply fits its buffer and the client reads the version, the command
  and, up to the largest \<open>int32_t\<close>, the table and the end of the lease that were sent. A larger
  table number is read as 2147483647.\<close>

theorem response_roundtrip:
  assumes "jsonc_ok jc" and "\<And>n. alloc n" and "length buf = TA_SHARED_MAX_JSON_LEN"
  shows "\<exists>n buf'. table_allocator_shared_json_gen_response jc alloc table lease_expires buf = Inr (n, buf')
    \<and> 0 < n \<and> n < TA_SHARED_MAX_JSON_LEN
    \<and> tables_allocator_shared_json_parse_client_reply jc (take n buf' @ rest) rp
      = Inr (True, \<lparr>rep_ver = TA_VERSION, rep_cmd = TA_SHARED_CMD_RESP,
          rep_table = min table 0x7FFFFFFF, rep_lease = min lease_expires 0x7FFFFFFF\<rparr>)"
proof -
  let ?txt = "flat_text (response_fields table lease_expires)"
  have "0 < length ?txt" "length ?txt < TA_SHARED_MAX_JSON_LEN"
    using response_text_length [of table lease_expires] by (simp_all add: flat_text_def size_defs)
  then show ?thesis
    using gen_response_text [OF assms(1,2)] assms(3) parse_response_text [OF assms(1)]
    by (simp add: reply_int_def)
qed

section \<open>Witnesses\<close>

text \<open>
  A reader and a printer of flat objects, \<open>ref_json\<close>: the hypothesis \<open>jsonc_ok\<close> holds of it,
  so the theorems that assume it can be applied.
\<close>

definition read_quoted :: "string \<Rightarrow> (string \<times> string) option" where
  "read_quoted s = (case s of
     [] \<Rightarrow> None
   | c # s' \<Rightarrow>
       if c \<noteq> CHR 0x22 then None
       else case dropWhile (\<lambda>c. c \<noteq> CHR 0x22) s' of
         [] \<Rightarrow> None
       | _ # rest \<Rightarrow> Some (takeWhile (\<lambda>c. c \<noteq> CHR 0x22) s', rest))"

definition is_digit :: "char \<Rightarrow> bool" where
  "is_digit c \<longleftrightarrow> 48 \<le> (of_char c :: nat) \<and> (of_char c :: nat) < 58"

definition read_value :: "string \<Rightarrow> (json \<times> string) option" where
  "read_value s = (case read_quoted s of
     Some (t, rest) \<Rightarrow> Some (JString t, rest)
   | None \<Rightarrow> Some (JInt (int (undec (takeWhile is_digit s))), dropWhile is_digit s))"

fun read_members :: "nat \<Rightarrow> string \<Rightarrow> (string \<times> json) list option" where
  "read_members 0 s = None"
| "read_members (Suc n) s = (case read_quoted s of
     Some (k, _ # s1) \<Rightarrow>
       (case read_value s1 of
          Some (v, d # s2) \<Rightarrow>
            if d = CHR 0x2C then map_option (\<lambda>kvs. (k, v) # kvs) (read_members n s2) else Some [(k, v)]
        | _ \<Rightarrow> None)
   | _ \<Rightarrow> None)"

definition ref_json :: jsonc where
  "ref_json = \<lparr>jc_parse = (\<lambda>s. if take 1 s = ''{''
        then map_option JObject (read_members (length s) (drop 1 s)) else None),
     jc_print = (\<lambda>v. case v of JObject kvs \<Rightarrow> flat_text kvs | _ \<Rightarrow> []), jc_get_int = int32_of\<rparr>"

lemma read_quoted_quoted: "list_all safe_char t \<Longrightarrow> read_quoted (quoted t @ rest) = Some (t, rest)"
proof -
  have "\<not> safe_char CHR 0x22" by (simp add: safe_char_def)
  then have "c \<noteq> CHR 0x22" if "list_all safe_char t" "c \<in> set t" for c
    using that unfolding list_all_iff by blast
  then show "list_all safe_char t \<Longrightarrow> ?thesis"
    by (simp add: read_quoted_def quoted_def takeWhile_append2 dropWhile_append2)
qed

lemma read_value_text:
  assumes "flat_value v" and "\<not> is_digit d"
  shows "read_value (value_text v @ d # rest) = Some (v, d # rest)"
proof (cases v)
  case (JInt n)
  have digits: "\<forall>c \<in> set (dec m). is_digit c" for m using dec_digits by (auto simp: is_digit_def)
  have "dec m \<noteq> []" for m by (subst dec.simps) simp
  then obtain c cs where c: "dec (nat n) = c # cs" by (meson neq_Nil_conv)
  then have "is_digit c" using digits by (metis list.set_intros(1))
  then have "c \<noteq> CHR 0x22" by (auto simp: is_digit_def)
  then have "read_quoted (value_text v @ d # rest) = None" by (simp add: JInt c read_quoted_def)
  moreover have "takeWhile is_digit (dec (nat n) @ d # rest) = dec (nat n)"
    "dropWhile is_digit (dec (nat n) @ d # rest) = d # rest"
    using digits assms(2) by (simp_all add: takeWhile_append2 dropWhile_append2)
  ultimately show ?thesis using assms(1) by (simp add: read_value_def JInt)
next
  case (JString s)
  then show ?thesis using assms(1) by (simp add: read_value_def read_quoted_quoted)
qed (use assms in simp_all)

lemma read_member_text:
  assumes "list_all safe_char k" and "flat_value v" and "\<not> is_digit d"
  shows "read_members (Suc n) (member_text (k, v) @ d # rest) =
    (if d = CHR 0x2C then map_option (\<lambda>kvs. (k, v) # kvs) (read_members n rest) else Some [(k, v)])"
  using read_quoted_quoted [OF assms(1)] read_value_text [OF assms(2,3)] by (simp add: member_text_def)

lemma read_members_text:
  assumes "kvs \<noteq> []" and "\<forall>(k, v) \<in> set kvs. list_all safe_char k \<and> flat_value v" and "length kvs \<le> n"
  shows "read_members n (members_text kvs @ rest) = Some kvs"
  using assms
proof (induction kvs arbitrary: n rule: members_text.induct)
  case (2 kv)
  then obtain m where n: "n = Suc m" by (cases n) simp_all
  with 2 show ?case
    using read_member_text [of "fst kv" "snd kv" "CHR 0x7D"] by (auto simp: is_digit_def simp del: read_members.simps)
next
  case (3 kv kv' kvs)
  then obtain m where n: "n = Suc m" by (cases n) simp_all
  with 3 show ?case
    using read_member_text [of "fst kv" "snd kv" "CHR 0x2C"] by (auto simp: is_digit_def simp del: read_members.simps)
qed simp

lemma length_members_text: "length kvs \<le> length (members_text kvs)"
  by (induction kvs rule: members_text.induct) (simp_all add: member_text_def quoted_def)

lemma ref_json_ok: "jsonc_ok ref_json"
proof -
  have "read_members (length (flat_text kvs @ rest)) (members_text kvs @ rest) = Some kvs" if "flat kvs" for kvs rest
    using that length_members_text [of kvs] by (intro read_members_text) (auto simp: flat_def flat_text_def)
  then show ?thesis
    by (simp add: jsonc_ok_def ref_json_def flat_text_def)
qed

theorem parse_seq_bounds_witness:
  "req_bufs zero_req \<and> table_allocator_shared_json_parse_seq
     (ref_json\<lparr>jc_parse := (\<lambda>s. Some (JInt 1))\<rparr>) ''1'' zero_req = Inl Null_pointer"
  using parse_seq_bounds [OF req_bufs_zero, of "ref_json\<lparr>jc_parse := (\<lambda>s. Some (JInt 1))\<rparr>" "''1''"] req_bufs_zero
  by simp

theorem request_roundtrip_witness:
  "\<exists>obj. table_allocator_shared_json_create_req (\<lambda>n. True) ''10.0.0.2'' ''eth1'' ''wan'' AF_INET TA_SHARED_CMD_REQ = Some obj
    \<and> table_allocator_shared_json_parse_seq ref_json (jc_print ref_json obj @ ''old'') zero_req
      = Inr (True, sent_req ''10.0.0.2'' ''eth1'' ''wan'' AF_INET TA_SHARED_CMD_REQ)"
proof -
  obtain obj where obj: "table_allocator_shared_json_create_req (\<lambda>n. True) ''10.0.0.2'' ''eth1'' ''wan'' AF_INET TA_SHARED_CMD_REQ = Some obj"
    by (simp add: table_allocator_shared_json_create_req_def add_fields_all)
  have "req_strings ''10.0.0.2'' ''eth1'' ''wan''"
    by (simp add: req_strings_def safe_char_def size_defs)
  from request_roundtrip [OF ref_json_ok this obj] obj show ?thesis by blast
qed

theorem response_roundtrip_witness:
  "\<exists>n buf'. table_allocator_shared_json_gen_response ref_json (\<lambda>n. True) 10000 3700 (zero_buf 254) = Inr (n, buf')
    \<and> tables_allocator_shared_json_parse_client_reply ref_json (take n buf' @ []) \<lparr>rep_ver = 0, rep_cmd = 0, rep_table = 0, rep_lease = 0\<rparr>
      = Inr (True, \<lparr>rep_ver = 1, rep_cmd = 2, rep_table = 10000, rep_lease = 3700\<rparr>)"
proof -
  have "length (zero_buf 254) = TA_SHARED_MAX_JSON_LEN" by (simp add: length_zero_buf size_defs)
  from response_roundtrip [OF ref_json_ok _ this, of "\<lambda>n. True" 10000 3700 "[]"
      "\<lparr>rep_ver = 0, rep_cmd = 0, rep_table = 0, rep_lease = 0\<rparr>"] show ?thesis
    by (auto simp: cmd_defs)
qed

end
