(* ===== verification/Socket_Helpers.thy ===== *)
theory Socket_Helpers
  imports Effects
begin

text \<open>
  \<^verbatim>\<open>table_allocator_shared_socket_helpers.c\<close> and
  \<^verbatim>\<open>table_allocator_shared_libuv_helpers.c\<close>: the datagram socket in the abstract name
  space, and the set-up of its libuv handle and timer. The answers of the system calls are
  arguments.
\<close>

definition DOMAIN_SOCKET_TIMEOUT_MS :: nat where "DOMAIN_SOCKET_TIMEOUT_MS = 200"
definition SUN_PATH_SIZE :: nat where "SUN_PATH_SIZE = 108"

text \<open>\<open>strncpy (sun_path + 1, name, strlen (name))\<close> into a zeroed address.\<close>

definition abstract_address :: "string \<Rightarrow> string res" where
  "abstract_address name =
     bindR (memcpy_buf (zero_buf (SUN_PATH_SIZE - 1)) name) (\<lambda>b. Inr (NUL # b))"

text \<open>
  The file descriptor or -1, the address it was bound to, and the operations that remain
  visible: a socket whose \<open>bind\<close> fails is closed again.
\<close>

definition ta_socket_helpers_create_unix_socket ::
  "int \<Rightarrow> int \<Rightarrow> string option \<Rightarrow> (int \<times> string option \<times> effect list) res" where
  "ta_socket_helpers_create_unix_socket socket_rc bind_rc path_name =
     (if (case path_name of Some p \<Rightarrow> length p > SUN_PATH_SIZE - 2 | None \<Rightarrow> False)
      then Inr (-1, None, [])
      else if socket_rc = -1 then Inr (-1, None, [])
      else case path_name of
        None \<Rightarrow> Inr (socket_rc, None, [])
      | Some p \<Rightarrow>
          bindR (abstract_address p) (\<lambda>a.
            if bind_rc = -1 then Inr (-1, None, [Close_fd socket_rc])
            else Inr (socket_rc, Some a, [])))"

definition ta_allocator_libuv_helpers_configure_unix_handle ::
  "int \<Rightarrow> int \<Rightarrow> int \<Rightarrow> bool \<times> effect list" where
  "ta_allocator_libuv_helpers_configure_unix_handle udp_rc init_rc start_rc =
     (if udp_rc \<noteq> 0 then (False, [])
      else if init_rc \<noteq> 0 then (False, [Udp_init Unix_socket])
      else if start_rc \<noteq> 0 then (False, [Udp_init Unix_socket, Timer_init Unix_socket_timeout])
      else (True, [Udp_init Unix_socket, Timer_init Unix_socket_timeout,
                   Timer_start Unix_socket_timeout 0 0]))"

text \<open>
  The head and the tail of \<open>unix_socket_timeout_cb\<close>, the same lines in the server and the
  client: a socket is created and attached to the handle unless it has one; on failure the
  one-shot timer is turned into a repeating one, once.
\<close>

record open_env =
  env_ebadf :: bool       \<comment> \<open>\<open>uv_fileno\<close> answers \<open>UV_EBADF\<close>: the handle has no socket\<close>
  env_fd :: int           \<comment> \<open>the socket the handle has, otherwise\<close>
  env_socket :: int
  env_bind :: int
  env_udp_open :: int
  env_recv_start :: int
  env_repeat :: nat       \<comment> \<open>\<open>uv_timer_get_repeat\<close>\<close>

definition open_unix_handle :: "open_env \<Rightarrow> string \<Rightarrow> (bool \<times> int \<times> effect list) res" where
  "open_unix_handle env path =
     (if env_ebadf env then
        bindR (ta_socket_helpers_create_unix_socket (env_socket env) (env_bind env) (Some path))
          (\<lambda>(fd, a, es).
            if fd < 0 then Inr (False, fd, es)
            else if env_udp_open env \<noteq> 0
            then Inr (False, fd, es @ [Udp_open Unix_socket fd, Close_fd fd])
            else Inr (True, fd, es @ [Udp_open Unix_socket fd]))
      else Inr (True, env_fd env, []))"

definition retry_unix_handle :: "open_env \<Rightarrow> effect list" where
  "retry_unix_handle env =
     (if env_repeat env = 0
      then [Timer_set_repeat Unix_socket_timeout DOMAIN_SOCKET_TIMEOUT_MS, Timer_again Unix_socket_timeout]
      else [])"

section \<open>Lemmas\<close>

lemma abstract_address_ok:
  "length name \<le> SUN_PATH_SIZE - 2 \<Longrightarrow>
   abstract_address name = Inr (NUL # name @ zero_buf (SUN_PATH_SIZE - 1 - length name))"
  by (simp add: abstract_address_def memcpy_zero_buf SUN_PATH_SIZE_def)

lemma create_unix_socket_total:
  "\<exists>r. ta_socket_helpers_create_unix_socket s b p = Inr r"
  by (auto simp: ta_socket_helpers_create_unix_socket_def abstract_address_ok not_less
      split: option.splits)

lemma open_unix_handle_total: "\<exists>r. open_unix_handle env path = Inr r"
  using create_unix_socket_total [of "env_socket env" "env_bind env" "Some path"]
  by (auto simp: open_unix_handle_def split: prod.splits)

text \<open>Opening a socket sends nothing.\<close>

lemma sent_retry [simp]: "sent (retry_unix_handle env) = []"
  by (simp add: retry_unix_handle_def)

lemma sent_open: "open_unix_handle env path = Inr (ok, fd, es) \<Longrightarrow> sent es = []"
  by (auto simp: open_unix_handle_def ta_socket_helpers_create_unix_socket_def res_simps
      split: if_split_asm option.split_asm)

section \<open>Properties\<close>

text \<open>C28: creating the socket never writes outside the address. A name is bound exactly when
  it has at most 106 characters and both system calls succeed; the address is then the abstract one
  (a leading NUL, then the name) and its last byte is NUL, and a socket that could not be bound is
  closed.\<close>

theorem create_unix_socket_address:
  "\<exists>fd a es. ta_socket_helpers_create_unix_socket socket_rc bind_rc (Some name) = Inr (fd, a, es)
    \<and> (a \<noteq> None \<longleftrightarrow> length name \<le> 106 \<and> socket_rc \<noteq> -1 \<and> bind_rc \<noteq> -1)
    \<and> (\<forall>b. a = Some b \<longrightarrow> fd = socket_rc \<and> es = [] \<and> length b = SUN_PATH_SIZE \<and> hd b = NUL
         \<and> last b = NUL \<and> (NUL \<notin> set name \<longrightarrow> cstr (tl b) = name))
    \<and> (a = None \<longrightarrow> fd = -1
         \<and> es = (if length name \<le> 106 \<and> socket_rc \<noteq> -1 then [Close_fd socket_rc] else []))"
proof (cases "length name \<le> 106 \<and> socket_rc \<noteq> -1")
  case True
  then have a: "abstract_address name = Inr (NUL # name @ zero_buf (107 - length name))"
    by (simp add: abstract_address_ok SUN_PATH_SIZE_def)
  obtain k where k: "107 - length name = Suc k" using True by (cases "107 - length name") simp_all
  have last: "last (NUL # name @ zero_buf (107 - length name)) = NUL"
    unfolding k by (simp add: zero_buf_def)
  show ?thesis
    using True last
    by (simp add: ta_socket_helpers_create_unix_socket_def SUN_PATH_SIZE_def a cstr_padded length_zero_buf)
next
  case False
  then show ?thesis by (auto simp: ta_socket_helpers_create_unix_socket_def SUN_PATH_SIZE_def)
qed

theorem create_unix_socket_address_witness:
  "ta_socket_helpers_create_unix_socket 7 0 (Some ''tas'') = Inr (7, Some (NUL # ''tas'' @ zero_buf 104), [])"
  using create_unix_socket_address [of 7 0 "''tas''"]
  by (auto simp: ta_socket_helpers_create_unix_socket_def SUN_PATH_SIZE_def abstract_address_ok)

end
