(* ===== verification/Runs.thy ===== *)
theory Runs
  imports Prelude
begin

text \<open>
  Event-driven programs: a fallible handler applied to one event after the other. \<open>runs\<close> is
  the step relation over the events the environment may produce, \<open>reactive\<close> the interface of a
  program whose handlers keep an invariant on such events; the server and the client are
  instances. A program of this kind never stops on an admissible event and keeps its invariant
  in every state it reaches.
\<close>

inductive runs :: "('e \<Rightarrow> 's \<Rightarrow> 's res) \<Rightarrow> ('s \<Rightarrow> 'e \<Rightarrow> bool) \<Rightarrow> 's \<Rightarrow> 'e list \<Rightarrow> 's \<Rightarrow> bool"
  for handle :: "'e \<Rightarrow> 's \<Rightarrow> 's res" and admissible :: "'s \<Rightarrow> 'e \<Rightarrow> bool" where
  start: "runs handle admissible s [] s"
| event: "runs handle admissible s es t \<Longrightarrow> admissible t e \<Longrightarrow> handle e t = Inr u \<Longrightarrow>
    runs handle admissible s (es @ [e]) u"

inductive_simps runs_Nil [simp]: "runs handle admissible s [] u"

inductive_simps runs_snoc: "runs handle admissible s (es @ [e]) u"

locale reactive =
  fixes handle :: "'e \<Rightarrow> 's \<Rightarrow> 's res"
    and admissible :: "'s \<Rightarrow> 'e \<Rightarrow> bool"
    and invar :: "'s \<Rightarrow> bool"
  assumes step: "invar s \<Longrightarrow> admissible s e \<Longrightarrow> \<exists>s'. handle e s = Inr s' \<and> invar s'"
begin

lemma reached: "runs handle admissible s es t \<Longrightarrow> invar s \<Longrightarrow> invar t"
proof (induction rule: runs.induct)
  case (event s es t e u)
  with step [of t e] show ?case by auto
qed

lemma not_stuck:
  "runs handle admissible s es t \<Longrightarrow> invar s \<Longrightarrow> admissible t e \<Longrightarrow>
   \<exists>u. runs handle admissible s (es @ [e]) u \<and> invar u"
  using step reached runs.event by metis

end

end
