(* ===== verification/Server_Sockets.thy ===== *)
theory Server_Sockets
  imports Server_Leases Json_Messages Socket_Helpers Runs
begin

text \<open>
  The server's socket callbacks (\<^verbatim>\<open>table_allocator_server_sockets.c\<close>) and the server as an
  event-driven program: datagrams, the sweep timer, the socket timer and the passing of time. The
  receive buffer is not cleared between datagrams, so a request is parsed from what the datagram
  wrote followed by what older ones left.
\<close>

section \<open>Callbacks\<close>

text \<open>The kernel writes a datagram to the buffer \<open>unix_socket_alloc_cb\<close> hands out.\<close>

definition unix_socket_alloc_cb :: "tas_ctx \<Rightarrow> string \<times> nat" where
  "unix_socket_alloc_cb ctx = (client_req_buffer ctx, CLIENT_REQ_BUFFER_SIZE)"

definition receive_into :: "string \<Rightarrow> tas_ctx \<Rightarrow> tas_ctx" where
  "receive_into data ctx = (case unix_socket_alloc_cb ctx of (base, len) \<Rightarrow>
     ctx\<lparr>client_req_buffer := take len data @ drop (length (take len data)) base\<rparr>)"

definition unix_socket_handle_close_cb :: "tas_ctx \<Rightarrow> tas_ctx" where
  "unix_socket_handle_close_cb = emit [Udp_init Unix_socket, Timer_start Unix_socket_timeout 0 0]"

definition unix_socket_stop_recv :: "bool \<Rightarrow> tas_ctx \<Rightarrow> tas_ctx" where
  "unix_socket_stop_recv is_closing =
     emit (Udp_recv_stop Unix_socket # (if \<not> is_closing then [Uv_close Unix_socket] else []))"

record recv_env =
  rcv_req :: req_env
  rcv_sel :: sql_rc
  rcv_del :: sql_rc
  rcv_alloc :: "nat \<Rightarrow> bool"
  rcv_sendto :: int
  rcv_closing :: bool

text \<open>
  \<open>nread\<close>, the truncation flag and the name of the sender, a null pointer for an unnamed
  socket. Every path after the parsing reads the sender's name for a log message.
  \<open>json_tokener_parse\<close> takes a NUL-terminated string.
\<close>

definition unix_socket_reply ::
  "jsonc \<Rightarrow> recv_env \<Rightarrow> tas_ctx \<Rightarrow> string \<Rightarrow> (u32 \<times> u32) option \<Rightarrow> tas_ctx res" where
  "unix_socket_reply jc env ctx sender answer =
     (case answer of
        None \<Rightarrow> Inr ctx
      | Some (table, lease_expires) \<Rightarrow>
          bindR (table_allocator_shared_json_gen_response jc (rcv_alloc env) table lease_expires
                   (zero_buf TA_SHARED_MAX_JSON_LEN))
            (\<lambda>(reply_buf_len, reply_buf).
               if reply_buf_len = 0 then Inr ctx
               else Inr (emit [Sendto sender (take reply_buf_len reply_buf) (rcv_sendto env)] ctx)))"

definition unix_socket_recv_cb ::
  "jsonc \<Rightarrow> recv_env \<Rightarrow> int \<Rightarrow> bool \<Rightarrow> string option \<Rightarrow> tas_ctx \<Rightarrow> tas_ctx res" where
  "unix_socket_recv_cb jc env nread partial addr ctx =
     (if nread = 0 \<or> partial then Inr ctx
      else if nread < 0 then Inr (unix_socket_stop_recv (rcv_closing env) ctx)
      else bindR (c_string (client_req_buffer ctx)) (\<lambda>txt.
           bindR (table_allocator_shared_json_parse_seq jc txt zero_req) (\<lambda>(parsed, rq).
             let ctx = ctx\<lparr>req := rq\<rparr> in
             case addr of
               None \<Rightarrow> Inl Null_pointer
             | Some sender \<Rightarrow>
                 if \<not> parsed then Inr ctx
                 else if req_cmd rq = TA_SHARED_CMD_REQ then
                   bindR (table_allocator_server_clients_handle_req (rcv_req env) ctx rq)
                     (\<lambda>(answer, ctx1). unix_socket_reply jc env ctx1 sender answer)
                 else if req_cmd rq = TA_SHARED_CMD_REL then
                   bindR (table_allocator_server_clients_handle_release (rcv_sel env) (rcv_del env) ctx rq)
                     (\<lambda>(ok, ctx1). unix_socket_reply jc env ctx1 sender (if ok then Some (0, 0) else None))
                 else Inr ctx)))"

definition unix_socket_timeout_cb :: "open_env \<Rightarrow> tas_ctx \<Rightarrow> tas_ctx res" where
  "unix_socket_timeout_cb env ctx =
     bindR (c_string (socket_path ctx)) (\<lambda>path.
     bindR (open_unix_handle env path) (\<lambda>(success, sock_fd, es).
       let ctx1 = emit es ctx in
       if success then
         if env_recv_start env < 0 then
           Inr (emit ([Udp_init Unix_socket, Close_fd sock_fd] @ retry_unix_handle env) ctx1)
         else Inr (emit [Udp_recv_start Unix_socket, Timer_stop Unix_socket_timeout] ctx1)
       else Inr (emit (retry_unix_handle env) ctx1)))"

section \<open>The server as a whole\<close>

text \<open>
  A state is the time and the context. \<open>srv_handle\<close> dispatches an event to its callback as
  libuv does. Events are admissible when a client behaves: its socket has a name, its datagram is
  shorter than the buffer, and the text in the buffer, if it is JSON, is an object.
\<close>

datatype srv_event =
    Tick nat
  | Datagram recv_env string "string option"
  | Socket_error recv_env int
  | Socket_closed
  | Socket_timer open_env
  | Sweep_timer "int option" sql_rc sql_rc

fun srv_handle :: "jsonc \<Rightarrow> srv_event \<Rightarrow> int \<times> tas_ctx \<Rightarrow> (int \<times> tas_ctx) res" where
  "srv_handle jc (Tick n) (now, ctx) = Inr (now + int n, ctx)"
| "srv_handle jc (Datagram env data addr) (now, ctx) =
     bindR (unix_socket_recv_cb jc env (int (length data)) (CLIENT_REQ_BUFFER_SIZE < length data) addr
              (receive_into data ctx)) (\<lambda>ctx'. Inr (now, ctx'))"
| "srv_handle jc (Socket_error env nread) (now, ctx) =
     bindR (unix_socket_recv_cb jc env nread False None ctx) (\<lambda>ctx'. Inr (now, ctx'))"
| "srv_handle jc Socket_closed (now, ctx) = Inr (now, unix_socket_handle_close_cb ctx)"
| "srv_handle jc (Socket_timer env) (now, ctx) =
     bindR (unix_socket_timeout_cb env ctx) (\<lambda>ctx'. Inr (now, ctx'))"
| "srv_handle jc (Sweep_timer clk sel_rc del_rc) (now, ctx) =
     bindR (table_allocator_server_clients_delete_dead_leases clk sel_rc del_rc ctx)
       (\<lambda>ctx'. Inr (now, ctx'))"

fun srv_admissible :: "jsonc \<Rightarrow> int \<times> tas_ctx \<Rightarrow> srv_event \<Rightarrow> bool" where
  "srv_admissible jc (now, ctx) (Tick n) = clock_ok (now + int n)"
| "srv_admissible jc (now, ctx) (Datagram env data addr) =
     (addr \<noteq> None \<and> length data < CLIENT_REQ_BUFFER_SIZE
      \<and> object_or_junk (jc_parse jc (cstr (client_req_buffer (receive_into data ctx)))))"
| "srv_admissible jc (now, ctx) (Socket_error env nread) = (nread < 0)"
| "srv_admissible jc (now, ctx) Socket_closed = True"
| "srv_admissible jc (now, ctx) (Socket_timer env) = True"
| "srv_admissible jc (now, ctx) (Sweep_timer clk sel_rc del_rc) = (clk = None \<or> clk = Some now)"

definition srv_safe :: "int \<times> tas_ctx \<Rightarrow> bool" where
  "srv_safe s \<longleftrightarrow> (case s of (now, ctx) \<Rightarrow> srv_inv now ctx \<and> clock_ok now
     \<and> terminated CLIENT_REQ_BUFFER_SIZE (client_req_buffer ctx) \<and> NUL \<in> set (socket_path ctx))"

section \<open>Lemmas\<close>

lemma frames [simp]:
  "srv_inv now (emit es ctx) = srv_inv now ctx" "srv_inv now (ctx\<lparr>req := rq\<rparr>) = srv_inv now ctx"
  "srv_inv now (ctx\<lparr>client_req_buffer := b\<rparr>) = srv_inv now ctx"
  "srv_inv now (ctx\<lparr>socket_path := b\<rparr>) = srv_inv now ctx"
  "client_req_buffer (toggle_id ctx f i) = client_req_buffer ctx"
  "socket_path (toggle_id ctx f i) = socket_path ctx"
  by (simp_all add: srv_inv_def srv_wf_def live_taken_def row_ok_def row_id_def table_id_def
      family_map_def ctx_free_def capacity_def geometry_def emit_def toggle_id_def
      update_family_map_def split: option.split)

lemma receive_into_terminated:
  assumes "terminated CLIENT_REQ_BUFFER_SIZE (client_req_buffer ctx)" and "length data < CLIENT_REQ_BUFFER_SIZE"
  shows "terminated CLIENT_REQ_BUFFER_SIZE (client_req_buffer (receive_into data ctx))"
  using assms by (auto simp: receive_into_def unix_socket_alloc_cb_def terminated_def nth_append)

text \<open>The handlers leave the buffer, the path and the configuration alone.\<close>

definition same_io :: "tas_ctx \<Rightarrow> tas_ctx \<Rightarrow> bool" where
  "same_io ctx ctx' \<longleftrightarrow> client_req_buffer ctx' = client_req_buffer ctx \<and> socket_path ctx' = socket_path ctx
     \<and> table_offset ctx' = table_offset ctx \<and> num_table_elements ctx' = num_table_elements ctx
     \<and> table_timeout ctx' = table_timeout ctx"

lemma same_io_rules [simp]:
  "same_io ctx ctx" "same_io ctx (toggle_id ctx f i)" "same_io ctx (ctx\<lparr>rt_rows := rows\<rparr>)"
  "same_io ctx (emit es ctx)" "same_io ctx (ctx\<lparr>req := rq\<rparr>)" "same_io ctx (update_family_map ctx f t)"
  by (simp_all add: same_io_def update_family_map_def)

lemma same_io_trans: "same_io a b \<Longrightarrow> same_io b c \<Longrightarrow> same_io a c"
  by (simp add: same_io_def)

text \<open>A request and a release do nothing outside, either; their reply is the caller's.\<close>

definition quiet_io :: "tas_ctx \<Rightarrow> tas_ctx \<Rightarrow> bool" where
  "quiet_io ctx ctx' \<longleftrightarrow> same_io ctx ctx' \<and> trace ctx' = trace ctx"

lemma quiet_io_rules [simp]:
  "quiet_io ctx ctx" "quiet_io ctx (toggle_id ctx f i)" "quiet_io ctx (ctx\<lparr>rt_rows := rows\<rparr>)"
  "quiet_io ctx (update_family_map ctx f t)"
proof -
  have "trace (update_family_map ctx f t) = trace ctx" by (simp add: update_family_map_def)
  then show "quiet_io ctx (update_family_map ctx f t)" by (simp add: quiet_io_def)
qed (simp_all add: quiet_io_def)

lemma quiet_io_trans: "quiet_io a b \<Longrightarrow> quiet_io b c \<Longrightarrow> quiet_io a c"
  using same_io_trans by (auto simp: quiet_io_def)

lemma handle_req_quiet:
  assumes "srv_wf ctx" and "table_allocator_server_clients_handle_req env ctx rq = Inr (res, ctx')"
  shows "quiet_io ctx ctx'"
  using assms(1)
proof (cases rule: handle_req_cases [where env = env and rq = rq])
  case (again now r ctx1 ctx2 ok)
  have "quiet_io ctx ctx1" by (simp add: again(7))
  moreover have "quiet_io ctx1 ctx2" using update_lease_cases [OF again(9)] by simp
  ultimately show ?thesis using again(10) assms(2) quiet_io_trans by auto
next
  case (fresh now i t ctx1 ctx2 ok)
  have "quiet_io ctx ctx1" by (simp add: fresh(11))
  moreover have "quiet_io ctx1 ctx2" using insert_table_cases [OF fresh(12)] by simp
  moreover have "quiet_io ctx1 (toggle_id ctx1 (req_family rq) i)" by simp
  ultimately show ?thesis using fresh(13) assms(2) quiet_io_trans by (auto split: if_splits)
qed (use assms in auto)

lemma handle_release_quiet:
  assumes "srv_wf ctx"
    and "table_allocator_server_clients_handle_release sel_rc del_rc ctx rq = Inr (ok, ctx')"
  shows "quiet_io ctx ctx'"
  using assms(1)
proof (cases rule: handle_release_cases [where sel_rc = sel_rc and del_rc = del_rc and rq = rq])
  case (released r ctx1)
  have "quiet_io ctx ctx1" using released(5) by simp
  moreover have "quiet_io ctx1 (toggle_id ctx1 (row_fam r) (row_id ctx r))" by simp
  ultimately show ?thesis using released(6) assms(2) quiet_io_trans by simp
qed (use assms in auto)

lemma release_dead_lease_quiet: "release_dead_lease f t ctx = Inr ctx' \<Longrightarrow> quiet_io ctx ctx'"
  by (auto simp: release_dead_lease_def release_table_def res_simps split: if_splits)

lemma sweep_quiet:
  assumes "table_allocator_server_clients_delete_dead_leases clk sel_rc del_rc ctx = Inr ctx'"
  shows "quiet_io ctx ctx'"
proof (cases "clk = None \<or> bind_rc sel_rc \<noteq> 0")
  case True
  with assms show ?thesis
    by (auto simp: table_allocator_server_clients_delete_dead_leases_def
        table_allocator_sqlite_delete_dead_leases_def split: option.splits)
next
  case False
  then obtain now where clk: "clk = Some now" and bind: "bind_rc sel_rc = 0" by auto
  have "quiet_io ctx c" if "run_check_table release_dead_lease xs ctx = Inr c" for xs c
    using that unfolding run_check_table_def
    by (rule foldR_invariant) (auto dest: release_dead_lease_quiet quiet_io_trans)
  then show ?thesis
    using assms quiet_io_trans
    by (fastforce simp: clk bind table_allocator_server_clients_delete_dead_leases_def
        table_allocator_sqlite_delete_dead_leases_def res_simps split: if_splits)
qed

lemmas handle_req_io = handle_req_quiet [THEN quiet_io_def [THEN iffD1], THEN conjunct1]
  and handle_release_io = handle_release_quiet [THEN quiet_io_def [THEN iffD1], THEN conjunct1]
  and sweep_io = sweep_quiet [THEN quiet_io_def [THEN iffD1], THEN conjunct1]

lemma reply_total:
  assumes "srv_inv now ctx"
  shows "\<exists>ctx'. unix_socket_reply jc env ctx sender answer = Inr ctx' \<and> srv_inv now ctx' \<and> same_io ctx ctx'"
proof (cases answer)
  case None
  with assms show ?thesis by (simp add: unix_socket_reply_def)
next
  case (Some a)
  obtain t e where a: "a = (t, e)" by fastforce
  have "\<exists>r. table_allocator_shared_json_gen_response jc (rcv_alloc env) t e (zero_buf TA_SHARED_MAX_JSON_LEN) = Inr r"
    by (auto simp: table_allocator_shared_json_gen_response_def Let_def memcpy_zero_buf
        split: option.split)
  then obtain n b where "table_allocator_shared_json_gen_response jc (rcv_alloc env) t e
      (zero_buf TA_SHARED_MAX_JSON_LEN) = Inr (n, b)" by (metis surj_pair)
  with assms show ?thesis by (simp add: unix_socket_reply_def Some a)
qed

lemma recv_total:
  assumes "srv_inv now ctx" and "NUL \<in> set (client_req_buffer ctx)"
    and "addr \<noteq> None \<or> nread < 0"
    and "0 < nread \<Longrightarrow> object_or_junk (jc_parse jc (cstr (client_req_buffer ctx)))"
  shows "\<exists>ctx'. unix_socket_recv_cb jc env nread partial addr ctx = Inr ctx' \<and> srv_inv now ctx' \<and> same_io ctx ctx'"
proof (cases "nread \<le> 0 \<or> partial")
  case True
  with assms(1) show ?thesis
    by (auto simp: unix_socket_recv_cb_def unix_socket_stop_recv_def)
next
  case False
  then obtain sender where addr: "addr = Some sender" using assms(3) by auto
  let ?txt = "cstr (client_req_buffer ctx)"
  obtain parsed rq where parse: "table_allocator_shared_json_parse_seq jc ?txt zero_req = Inr (parsed, rq)"
    using parse_seq_total [OF assms(4) req_bufs_zero] False by auto
  let ?c = "ctx\<lparr>req := rq\<rparr>"
  have inv: "srv_inv now ?c" using assms(1) by simp
  then have wf: "srv_wf ?c" by (simp only: srv_inv_def)
  note def = unix_socket_recv_cb_def c_string_def addr parse Let_def
  consider (bad) "\<not> parsed \<or> req_cmd rq \<noteq> TA_SHARED_CMD_REQ \<and> req_cmd rq \<noteq> TA_SHARED_CMD_REL"
    | (request) "parsed" "req_cmd rq = TA_SHARED_CMD_REQ"
    | (release) "parsed" "req_cmd rq \<noteq> TA_SHARED_CMD_REQ" "req_cmd rq = TA_SHARED_CMD_REL"
    by blast
  then show ?thesis
  proof cases
    case bad
    with False assms(1,2) show ?thesis by (auto simp: def)
  next
    case request
    obtain res c where c: "table_allocator_server_clients_handle_req (rcv_req env) ?c rq = Inr (res, c)" "srv_inv now c"
      using handle_req_preserves [OF inv] by blast
    obtain c' where c': "unix_socket_reply jc env c sender res = Inr c'" "srv_inv now c'" "same_io c c'"
      using reply_total [OF c(2)] by blast
    have "same_io ctx c'"
      using same_io_trans [OF same_io_rules(5) same_io_trans [OF handle_req_io [OF wf c(1)] c'(3)]] .
    with c' show ?thesis using False request assms(2) c(1) by (simp add: def)
  next
    case release
    obtain ok c where c: "table_allocator_server_clients_handle_release (rcv_sel env) (rcv_del env) ?c rq = Inr (ok, c)" "srv_inv now c"
      using handle_release_preserves [OF inv] by blast
    obtain c' where c': "unix_socket_reply jc env c sender (if ok then Some (0, 0) else None) = Inr c'"
        "srv_inv now c'" "same_io c c'"
      using reply_total [OF c(2)] by blast
    have "same_io ctx c'"
      using same_io_trans [OF same_io_rules(5) same_io_trans [OF handle_release_io [OF wf c(1)] c'(3)]] .
    with c' show ?thesis using False release assms(2) c(1) by (simp add: def)
  qed
qed

lemma socket_timer_total:
  assumes "NUL \<in> set (socket_path ctx)"
  shows "\<exists>es. unix_socket_timeout_cb env ctx = Inr (emit es ctx) \<and> sent es = []"
proof -
  obtain ok fd es where o: "open_unix_handle env (cstr (socket_path ctx)) = Inr (ok, fd, es)"
    using open_unix_handle_total by (metis prod_cases3)
  have "emit es (emit ds ctx) = emit (ds @ es) ctx" for es ds by (simp add: emit_def)
  with o sent_open [OF o] assms show ?thesis
    by (cases ok) (auto simp: unix_socket_timeout_cb_def c_string_def Let_def)
qed

lemma srv_step:
  assumes "srv_safe s" and "srv_admissible jc s e"
  shows "\<exists>s'. srv_handle jc e s = Inr s' \<and> srv_safe s'"
proof -
  obtain now ctx where s: "s = (now, ctx)" by fastforce
  have inv: "srv_inv now ctx" "clock_ok now" "terminated CLIENT_REQ_BUFFER_SIZE (client_req_buffer ctx)" "NUL \<in> set (socket_path ctx)"
    using assms(1) by (simp_all add: srv_safe_def s)
  show ?thesis
  proof (cases e)
    case (Tick n)
    have "srv_inv (now + int n) ctx"
      using inv(1) by (auto simp: srv_inv_def live_taken_def)
    with inv assms(2) show ?thesis by (simp add: s Tick srv_safe_def)
  next
    case (Datagram env data addr)
    let ?c = "receive_into data ctx"
    have c: "srv_inv now ?c" "socket_path ?c = socket_path ctx"
      using inv(1) by (simp_all add: receive_into_def unix_socket_alloc_cb_def)
    have t: "terminated CLIENT_REQ_BUFFER_SIZE (client_req_buffer ?c)"
      using receive_into_terminated [OF inv(3)] assms(2) by (simp add: s Datagram)
    obtain c' where "unix_socket_recv_cb jc env (int (length data)) (CLIENT_REQ_BUFFER_SIZE < length data) addr ?c = Inr c'"
        "srv_inv now c'" "same_io ?c c'"
      using recv_total [OF c(1) terminated_nul [OF t], of addr "int (length data)" jc env] assms(2)
      by (auto simp: s Datagram)
    then show ?thesis using inv(2,4) c(2) t by (simp add: s Datagram srv_safe_def same_io_def)
  next
    case (Socket_error env nread)
    obtain c' where "unix_socket_recv_cb jc env nread False None ctx = Inr c'" "srv_inv now c'" "same_io ctx c'"
      using recv_total [OF inv(1) terminated_nul [OF inv(3)], of None nread jc env False] assms(2)
      by (auto simp: s Socket_error)
    then show ?thesis using inv by (simp add: s Socket_error srv_safe_def same_io_def)
  next
    case Socket_closed
    with inv show ?thesis by (simp add: s srv_safe_def unix_socket_handle_close_cb_def)
  next
    case (Socket_timer env)
    obtain es where "unix_socket_timeout_cb env ctx = Inr (emit es ctx)"
      using socket_timer_total [OF inv(4)] by blast
    with inv show ?thesis by (simp add: s Socket_timer srv_safe_def)
  next
    case (Sweep_timer clk sel_rc del_rc)
    then obtain c' where c: "table_allocator_server_clients_delete_dead_leases clk sel_rc del_rc ctx = Inr c'" "srv_inv now c'"
      using sweep_preserves [OF inv(1,2), of clk sel_rc del_rc] assms(2) by (auto simp: s)
    with sweep_io [OF c(1)] inv show ?thesis by (simp add: s Sweep_timer srv_safe_def same_io_def)
  qed
qed

interpretation server: reactive "srv_handle jc" "srv_admissible jc" srv_safe for jc
  by unfold_locales (rule srv_step)

section \<open>Messages between client and server\<close>

lemma printed_request:
  assumes "jsonc_ok jc" and "req_strings address ifname tag"
    and "table_allocator_shared_json_create_req alloc address ifname tag fam cmd = Some obj"
  shows "jc_print jc obj = flat_text (request_fields address ifname tag fam cmd)"
proof -
  have flat: "flat (request_fields address ifname tag fam cmd)"
    using assms(2) by (intro request_flat) (simp_all add: req_strings_def)
  have "obj = JObject (request_fields address ifname tag fam cmd)"
    using assms(3) add_fields_cases [of alloc 1 "request_fields address ifname tag fam cmd" "[]"]
    by (auto simp: table_allocator_shared_json_create_req_def split: if_splits)
  with flat show ?thesis using assms(1) by (simp add: jsonc_ok_def)
qed

text \<open>What a client sent is what the handler gets, whatever older datagrams left in the buffer.\<close>

lemma request_received:
  assumes "jsonc_ok jc" and "req_strings address ifname tag"
    and "terminated CLIENT_REQ_BUFFER_SIZE (client_req_buffer ctx)"
    and "data = flat_text (request_fields address ifname tag fam cmd)" and "length data < CLIENT_REQ_BUFFER_SIZE"
  shows "srv_handle jc (Datagram env data (Some sender)) (now, ctx) = bindR
    (let rq = sent_req address ifname tag fam cmd; c = (receive_into data ctx)\<lparr>req := rq\<rparr> in
     if cmd = TA_SHARED_CMD_REQ then
       bindR (table_allocator_server_clients_handle_req (rcv_req env) c rq)
         (\<lambda>(answer, c1). unix_socket_reply jc env c1 sender answer)
     else if cmd = TA_SHARED_CMD_REL then
       bindR (table_allocator_server_clients_handle_release (rcv_sel env) (rcv_del env) c rq)
         (\<lambda>(ok, c1). unix_socket_reply jc env c1 sender (if ok then Some (0, 0) else None))
     else Inr c) (\<lambda>c. Inr (now, c))"
proof -
  let ?c = "receive_into data ctx"
  have flat: "flat (request_fields address ifname tag fam cmd)"
    using assms(2) by (intro request_flat) (simp_all add: req_strings_def)
  have nul: "NUL \<in> set (client_req_buffer ?c)"
    using receive_into_terminated [OF assms(3,5)] by (rule terminated_nul)
  have "client_req_buffer ?c = data @ drop (length data) (client_req_buffer ctx)"
    using assms(5) by (simp add: receive_into_def unix_socket_alloc_cb_def)
  then have "cstr (client_req_buffer ?c) = data @ cstr (drop (length data) (client_req_buffer ctx))"
    using flat_text_no_nul [OF flat] by (simp add: cstr_append assms(4))
  then have "table_allocator_shared_json_parse_seq jc (cstr (client_req_buffer ?c)) zero_req
      = Inr (True, sent_req address ifname tag fam cmd)"
    using parse_request_text [OF assms(1,2)] by (simp add: assms(4))
  moreover have "0 < length data" by (simp add: assms(4) flat_text_def)
  ultimately show ?thesis
    using assms(5) nul by (simp add: unix_socket_recv_cb_def c_string_def sent_req_def Let_def)
qed

lemma reply_sent:
  assumes "jsonc_ok jc"
  obtains (silent) "unix_socket_reply jc env ctx sender answer = Inr (emit [] ctx)"
  | (reply) t e where "answer = Some (t, e)"
      "unix_socket_reply jc env ctx sender answer = Inr (emit [Sendto sender (flat_text (response_fields t e)) (rcv_sendto env)] ctx)"
proof (cases answer)
  case None
  with that(1) show thesis by (simp add: unix_socket_reply_def emit_def)
next
  case (Some a)
  obtain t e where a: "a = (t, e)" by fastforce
  let ?fields = "response_fields t e"
  have str: "cstr (jc_print jc (JObject ?fields)) = flat_text ?fields"
    using assms response_flat flat_text_no_nul [OF response_flat] by (simp add: jsonc_ok_def cstr_idem)
  have len: "length (flat_text ?fields) < TA_SHARED_MAX_JSON_LEN" "flat_text ?fields \<noteq> []"
    using response_text_length [of t e] by (simp_all add: size_defs flat_text_def)
  show thesis
  proof (cases "rcv_alloc env 0 \<and> add_fields (rcv_alloc env) 1 ?fields [] \<noteq> None")
    case False
    then have "table_allocator_shared_json_gen_response jc (rcv_alloc env) t e (zero_buf TA_SHARED_MAX_JSON_LEN)
        = Inr (0, zero_buf TA_SHARED_MAX_JSON_LEN)"
      by (auto simp: table_allocator_shared_json_gen_response_def simp del: add_fields.simps)
    then have "unix_socket_reply jc env ctx sender answer = Inr (emit [] ctx)"
      by (simp add: unix_socket_reply_def Some a emit_def)
    then show thesis by (rule silent)
  next
    case True
    then have "add_fields (rcv_alloc env) 1 ?fields [] = Some (JObject ?fields)"
      by (cases rule: add_fields_cases [of "rcv_alloc env" 1 ?fields "[]"]) auto
    then have "table_allocator_shared_json_gen_response jc (rcv_alloc env) t e (zero_buf TA_SHARED_MAX_JSON_LEN)
        = Inr (length (flat_text ?fields), flat_text ?fields @ zero_buf (TA_SHARED_MAX_JSON_LEN - length (flat_text ?fields)))"
      using True str len by (simp add: table_allocator_shared_json_gen_response_def memcpy_zero_buf Let_def)
    then have "unix_socket_reply jc env ctx sender answer
        = Inr (emit [Sendto sender (flat_text (response_fields t e)) (rcv_sendto env)] ctx)"
      using len(2) by (simp add: unix_socket_reply_def Some a)
    with Some a show thesis by (intro reply) simp_all
  qed
qed

text \<open>The datagrams that stop the server: the buffer is a string unless it is full.\<close>

lemma receive_into_nul:
  assumes "terminated CLIENT_REQ_BUFFER_SIZE (client_req_buffer ctx)" and "length data \<le> CLIENT_REQ_BUFFER_SIZE"
  shows "NUL \<in> set (client_req_buffer (receive_into data ctx))
    \<longleftrightarrow> \<not> (length data = CLIENT_REQ_BUFFER_SIZE \<and> NUL \<notin> set data)"
proof (cases "length data = CLIENT_REQ_BUFFER_SIZE")
  case True
  then have "client_req_buffer (receive_into data ctx) = data"
    using assms(1) by (simp add: receive_into_def unix_socket_alloc_cb_def terminated_def)
  with True show ?thesis by simp
next
  case False
  then have "length data < CLIENT_REQ_BUFFER_SIZE" using assms(2) by simp
  from receive_into_terminated [OF assms(1) this] False show ?thesis using terminated_nul by blast
qed

lemma datagram_null:
  assumes "srv_inv now (receive_into data ctx)" and "NUL \<in> set (client_req_buffer (receive_into data ctx))"
    and "data \<noteq> []" and "length data \<le> CLIENT_REQ_BUFFER_SIZE"
  shows "srv_handle jc (Datagram env data addr) (now, ctx) = Inl h \<longleftrightarrow> h = Null_pointer
    \<and> (addr = None \<or> \<not> object_or_junk (jc_parse jc (cstr (client_req_buffer (receive_into data ctx)))))"
proof -
  let ?c = "receive_into data ctx"
  let ?p = "jc_parse jc (cstr (client_req_buffer ?c))"
  have len: "0 < int (length data)" using assms(3) by simp
  consider (odd) "\<not> object_or_junk ?p" | (unnamed) "object_or_junk ?p" "addr = None"
    | (good) "object_or_junk ?p" "addr \<noteq> None" by blast
  then show ?thesis
  proof cases
    case odd
    then obtain obj where obj: "?p = Some obj" "\<not> object_or_junk (Some obj)" by (cases ?p) auto
    then have "table_allocator_shared_json_parse_seq jc (cstr (client_req_buffer ?c)) zero_req = Inl Null_pointer"
      by (cases obj) (simp_all add: table_allocator_shared_json_parse_seq_def foreach_member_def)
    with assms(2-4) odd show ?thesis by (auto simp: unix_socket_recv_cb_def c_string_def)
  next
    case unnamed
    then obtain ok rq where "table_allocator_shared_json_parse_seq jc (cstr (client_req_buffer ?c)) zero_req = Inr (ok, rq)"
      using parse_seq_total req_bufs_zero by blast
    with unnamed assms(2-4) show ?thesis by (auto simp: unix_socket_recv_cb_def c_string_def Let_def)
  next
    case good
    then obtain s where "srv_handle jc (Datagram env data addr) (now, ctx) = Inr s"
      using recv_total [OF assms(1,2), of addr "int (length data)" jc env "CLIENT_REQ_BUFFER_SIZE < length data"] by auto
    with good show ?thesis by simp
  qed
qed

section \<open>Properties\<close>

text \<open>C9: a server started in a safe state never stops on admissible events: after any
  sequence of them, whatever sqlite, the clock and the system calls answered, its state is safe (live
  leases have their bits taken, no table has two owners, the buffer is terminated) and any further
  admissible event is handled.\<close>

theorem server_never_stops:
  assumes "srv_safe s" and "runs (srv_handle jc) (srv_admissible jc) s es t"
  shows "srv_safe t \<and> (\<forall>e. srv_admissible jc t e \<longrightarrow>
    (\<exists>u. runs (srv_handle jc) (srv_admissible jc) s (es @ [e]) u \<and> srv_safe u))"
  using server.reached [OF assms(2,1)] server.not_stuck [OF assms(2,1)] by blast

text \<open>C35: exactly these datagrams stop a server in a safe state: one that fills the buffer of
  512 bytes without a NUL, which is parsed as a string although nothing terminates it (a read out of
  bounds); and any other of 1 to 512 bytes that comes from a socket without a name (the sender's
  name is read for a log message) or makes the buffer hold JSON that is not an object (a null
  pointer). Empty datagrams and longer ones, which libuv reports as partial, are ignored.\<close>

theorem datagrams_that_fault:
  assumes "srv_inv now ctx" and "terminated CLIENT_REQ_BUFFER_SIZE (client_req_buffer ctx)"
  shows "srv_handle jc (Datagram env data addr) (now, ctx) = Inl h \<longleftrightarrow>
    data \<noteq> [] \<and> length data \<le> CLIENT_REQ_BUFFER_SIZE
    \<and> (if length data = CLIENT_REQ_BUFFER_SIZE \<and> NUL \<notin> set data then h = Out_of_bounds
       else h = Null_pointer
         \<and> (addr = None \<or> \<not> object_or_junk (jc_parse jc (cstr (client_req_buffer (receive_into data ctx))))))"
proof (cases "data \<noteq> [] \<and> length data \<le> CLIENT_REQ_BUFFER_SIZE")
  case False
  then show ?thesis by (auto simp: unix_socket_recv_cb_def)
next
  case len: True
  let ?c = "receive_into data ctx"
  have inv: "srv_inv now ?c" using assms(1) by (simp add: receive_into_def unix_socket_alloc_cb_def)
  show ?thesis
  proof (cases "NUL \<in> set (client_req_buffer ?c)")
    case False
    then have "length data = CLIENT_REQ_BUFFER_SIZE \<and> NUL \<notin> set data"
      using receive_into_nul [OF assms(2)] len by blast
    moreover have "srv_handle jc (Datagram env data addr) (now, ctx) = Inl Out_of_bounds"
      using len False by (simp add: unix_socket_recv_cb_def c_string_def)
    ultimately show ?thesis using len by auto
  next
    case True
    then have "\<not> (length data = CLIENT_REQ_BUFFER_SIZE \<and> NUL \<notin> set data)"
      using receive_into_nul [OF assms(2)] len by blast
    then show ?thesis using datagram_null [OF inv True, of jc env addr h] len by auto
  qed
qed

text \<open>C10: a request built by the client, received over whatever older datagrams left in the
  buffer and granted by the server, is answered with one datagram to the sender, from which the
  client reads the granted table and lease (tables and times below 2^31).\<close>

theorem request_answered:
  assumes "jsonc_ok jc" and "req_strings address ifname tag"
    and "table_allocator_shared_json_create_req alloc address ifname tag fam TA_SHARED_CMD_REQ = Some obj"
    and "srv_inv now ctx" and "terminated CLIENT_REQ_BUFFER_SIZE (client_req_buffer ctx)"
    and "length (jc_print jc obj) < CLIENT_REQ_BUFFER_SIZE" and "\<And>n. rcv_alloc env n"
    and "table_allocator_server_clients_handle_req (rcv_req env)
           ((receive_into (jc_print jc obj) ctx)\<lparr>req := sent_req address ifname tag fam TA_SHARED_CMD_REQ\<rparr>)
           (sent_req address ifname tag fam TA_SHARED_CMD_REQ) = Inr (Some (t, e), ctx1)"
    and "t < 2 ^ 31" and "e < 2 ^ 31"
  shows "\<exists>reply. srv_handle jc (Datagram env (jc_print jc obj) (Some sender)) (now, ctx)
        = Inr (now, emit [Sendto sender reply (rcv_sendto env)] ctx1)
    \<and> tables_allocator_shared_json_parse_client_reply jc (reply @ rest) rp
        = Inr (True, \<lparr>rep_ver = TA_VERSION, rep_cmd = TA_SHARED_CMD_RESP, rep_table = t, rep_lease = e\<rparr>)"
proof -
  let ?data = "jc_print jc obj" and ?rq = "sent_req address ifname tag fam TA_SHARED_CMD_REQ"
  have data: "?data = flat_text (request_fields address ifname tag fam TA_SHARED_CMD_REQ)"
    using assms(1-3) by (rule printed_request)
  let ?reply = "flat_text (response_fields t e)"
  have "unix_socket_reply jc env ctx1 sender (Some (t, e)) = Inr (emit [Sendto sender ?reply (rcv_sendto env)] ctx1)"
    using gen_response_text [OF assms(1,7), of "zero_buf TA_SHARED_MAX_JSON_LEN"]
    by (simp add: unix_socket_reply_def length_zero_buf flat_text_def)
  with request_received [OF assms(1,2,5) data assms(6), of env sender now] assms(8)
  have "srv_handle jc (Datagram env ?data (Some sender)) (now, ctx) = Inr (now, emit [Sendto sender ?reply (rcv_sendto env)] ctx1)"
    by (simp add: Let_def)
  moreover have "tables_allocator_shared_json_parse_client_reply jc (?reply @ rest) rp
        = Inr (True, \<lparr>rep_ver = TA_VERSION, rep_cmd = TA_SHARED_CMD_RESP, rep_table = t, rep_lease = e\<rparr>)"
    using parse_response_text [OF assms(1)] assms(9,10) by (simp add: reply_int_id)
  ultimately show ?thesis by blast
qed

section \<open>Witnesses\<close>

lemma leased_io: "client_req_buffer leased_ctx = zero_buf CLIENT_REQ_BUFFER_SIZE"
  "socket_path leased_ctx = zero_buf TA_SHARED_MAX_ADDR_SIZE"
  by (simp_all add: leased_ctx_def freed_ctx_def example_ctx_def calloc_ctx_def)

lemma leased_buffer: "terminated CLIENT_REQ_BUFFER_SIZE (client_req_buffer leased_ctx)"
  by (simp add: leased_io terminated_zero_buf size_defs)

lemma leased_safe: "srv_safe (100, leased_ctx)"
  by (simp add: srv_safe_def leased_inv leased_buffer clock_ok_def)
     (simp add: leased_io size_defs zero_buf_def)

theorem server_never_stops_witness:
  "runs (srv_handle ref_json) (srv_admissible ref_json) (100, leased_ctx) [Tick 600] (700, leased_ctx)
    \<and> (\<exists>u. runs (srv_handle ref_json) (srv_admissible ref_json) (100, leased_ctx)
          ([Tick 600] @ [Sweep_timer (Some 700) sql_ok sql_ok]) u \<and> srv_safe u)"
proof -
  have run: "runs (srv_handle ref_json) (srv_admissible ref_json) (100, leased_ctx) ([] @ [Tick 600]) (700, leased_ctx)"
    unfolding runs_snoc by (simp add: clock_ok_def)
  with server_never_stops [OF leased_safe run] show ?thesis
    by (metis append_Nil srv_admissible.simps(6))
qed

theorem datagrams_that_fault_witness:
  "srv_handle ref_json (Datagram undefined ''x'' None) (100, leased_ctx) = Inl Null_pointer
   \<and> srv_handle ref_json (Datagram undefined (replicate 512 CHR ''x'') (Some ''eth1'')) (100, leased_ctx) = Inl Out_of_bounds
   \<and> srv_handle ref_json (Datagram undefined (replicate 513 CHR ''x'') None) (100, leased_ctx) \<noteq> Inl Null_pointer"
proof -
  note fault = datagrams_that_fault [OF leased_inv leased_buffer]
  show ?thesis
    using fault [of ref_json undefined "''x''" None 100 Null_pointer]
      fault [of ref_json undefined "replicate 512 CHR ''x''" "Some ''eth1''" 100 Out_of_bounds]
      fault [of ref_json undefined "replicate 513 CHR ''x''" None 100 Null_pointer]
    by (simp add: size_defs del: srv_handle.simps)
qed

lemma sent_eth1: "sent_req ''10.0.0.2'' ''eth1'' '''' AF_INET TA_SHARED_CMD_REQ = eth1_req"
  by (simp add: sent_req_def eth1_req_def buf_def zero_req_def size_defs cmd_defs)

theorem request_answered_witness:
  "\<exists>obj reply ctx1. srv_handle ref_json (Datagram \<lparr>rcv_req = ok_env 100, rcv_sel = sql_ok, rcv_del = sql_ok,
        rcv_alloc = (\<lambda>n. True), rcv_sendto = 90, rcv_closing = False\<rparr> (jc_print ref_json obj) (Some ''eth1-10.0.0.2-2''))
      (100, leased_ctx) = Inr (100, emit [Sendto ''eth1-10.0.0.2-2'' reply 90] ctx1)
    \<and> tables_allocator_shared_json_parse_client_reply ref_json (reply @ [])
        \<lparr>rep_ver = 0, rep_cmd = 0, rep_table = 0, rep_lease = 0\<rparr>
      = Inr (True, \<lparr>rep_ver = TA_VERSION, rep_cmd = TA_SHARED_CMD_RESP, rep_table = 10000, rep_lease = 3700\<rparr>)"
proof -
  let ?env = "\<lparr>rcv_req = ok_env 100, rcv_sel = sql_ok, rcv_del = sql_ok, rcv_alloc = (\<lambda>n. True), rcv_sendto = 90, rcv_closing = False\<rparr>"
  obtain obj where obj: "table_allocator_shared_json_create_req (\<lambda>n. True) ''10.0.0.2'' ''eth1'' '''' AF_INET TA_SHARED_CMD_REQ = Some obj"
    by (simp add: table_allocator_shared_json_create_req_def add_fields_all)
  then have "obj = JObject (request_fields ''10.0.0.2'' ''eth1'' '''' AF_INET TA_SHARED_CMD_REQ)"
    by (simp add: table_allocator_shared_json_create_req_def add_fields_all)
  then have len: "length (jc_print ref_json obj) < CLIENT_REQ_BUFFER_SIZE"
    by (simp add: ref_json_def request_fields_def flat_text_def member_text_def quoted_def key_defs
        cmd_defs af_defs size_defs dec.simps)
  have strings: "req_strings ''10.0.0.2'' ''eth1'' ''''"
    by (simp add: req_strings_def safe_char_def size_defs)
  obtain ctx1 where granted: "table_allocator_server_clients_handle_req (rcv_req ?env)
      ((receive_into (jc_print ref_json obj) leased_ctx)\<lparr>req := eth1_req\<rparr>) eth1_req = Inr (Some (10000, 3700), ctx1)"
  proof -
    let ?c = "(receive_into (jc_print ref_json obj) leased_ctx)\<lparr>req := eth1_req\<rparr>"
    have "srv_inv 100 ?c" using leased_inv by (simp add: receive_into_def unix_socket_alloc_cb_def)
    then have "srv_wf ?c" by (simp only: srv_inv_def)
    moreover have "family_served ?c AF_INET" "table_timeout ?c = 3600" "rt_rows ?c = [row_of eth1_req 10000 500]"
      using leased_facts by (simp_all add: family_served_def receive_into_def unix_socket_alloc_cb_def)
    ultimately obtain c1 where
      "table_allocator_server_clients_handle_req (ok_env 100) ?c eth1_req = Inr (Some (10000, 3700), c1)"
      using leased_request [of ?c] by blast
    then show ?thesis by (intro that) simp
  qed
  from request_answered [OF ref_json_ok strings obj leased_inv leased_buffer len, of ?env, unfolded sent_eth1, OF _ granted]
  show ?thesis by fastforce
qed

end
