(* ===== verification/Server_Config.thy ===== *)
theory Server_Config
  imports Server_Sockets
begin

text \<open>
  Starting the server: the configuration file, the table maps, and the rebuilding of the maps
  from the leases in the database (\<^verbatim>\<open>table_allocator_server.c\<close>). What the C library, json-c
  and sqlite answer is the record \<open>start_env\<close>; \<open>None\<close> is a C function's \<open>return 0\<close>.
\<close>

section \<open>Configuration file\<close>

definition TAS_SOCKET_PATH_KEY :: string where "TAS_SOCKET_PATH_KEY = ''socket_path''"
definition TAS_TABLE_OFFSET_KEY :: string where "TAS_TABLE_OFFSET_KEY = ''table_offset''"
definition TAS_NUM_TABLES_KEY :: string where "TAS_NUM_TABLES_KEY = ''num_tables''"
definition TAS_TABLE_TIMEOUT_KEY :: string where "TAS_TABLE_TIMEOUT_KEY = ''table_timeout''"
definition TAS_DB_PATH_KEY :: string where "TAS_DB_PATH_KEY = ''db_path''"
definition TAS_DO_SYSLOG_KEY :: string where "TAS_DO_SYSLOG_KEY = ''do_syslog''"
definition TAS_LOG_PATH_KEY :: string where "TAS_LOG_PATH_KEY = ''log_path''"
definition TAS_ADDR_FAMILIES_KEY :: string where "TAS_ADDR_FAMILIES_KEY = ''addr_families''"
definition TAS_ADDR_FAMILIES_INET_KEY :: string where "TAS_ADDR_FAMILIES_INET_KEY = ''inet''"
definition TAS_ADDR_FAMILIES_INET6_KEY :: string where "TAS_ADDR_FAMILIES_INET6_KEY = ''inet6''"
definition TAS_ADDR_FAMILIES_UNSPEC_KEY :: string where "TAS_ADDR_FAMILIES_UNSPEC_KEY = ''unspec''"

lemmas tas_key_defs = TAS_SOCKET_PATH_KEY_def TAS_TABLE_OFFSET_KEY_def TAS_NUM_TABLES_KEY_def
  TAS_TABLE_TIMEOUT_KEY_def TAS_DB_PATH_KEY_def TAS_DO_SYSLOG_KEY_def TAS_LOG_PATH_KEY_def
  TAS_ADDR_FAMILIES_KEY_def TAS_ADDR_FAMILIES_INET_KEY_def TAS_ADDR_FAMILIES_INET6_KEY_def
  TAS_ADDR_FAMILIES_UNSPEC_KEY_def

definition CONF_FILE_BUF :: nat where "CONF_FILE_BUF = 1024"

definition parse_addr_families :: "json \<Rightarrow> u8 \<Rightarrow> u8 res" where
  "parse_addr_families fam_obj = foreach_member fam_obj (\<lambda>(key, val) mask.
     case val of
       JBool add_addr_family \<Rightarrow>
         if cstr key = TAS_ADDR_FAMILIES_INET_KEY then
           Inr (if add_addr_family then mask OR ADDR_FAMILY_INET else mask)
         else if cstr key = TAS_ADDR_FAMILIES_INET6_KEY then
           Inr (if add_addr_family then mask OR ADDR_FAMILY_INET6 else mask)
         else if cstr key = TAS_ADDR_FAMILIES_UNSPEC_KEY then
           Inr (if add_addr_family then mask OR ADDR_FAMILY_UNSPEC else mask)
         else Inr mask
     | _ \<Rightarrow> Inr mask)"

text \<open>The local variables the members of the configuration are read into.\<close>

record conf_vars =
  cv_socket_path :: "string option"
  cv_db_path :: "string option"
  cv_log_path :: "string option"
  cv_addr_families :: "json option"

definition no_conf :: conf_vars where
  "no_conf = \<lparr>cv_socket_path = None, cv_db_path = None, cv_log_path = None, cv_addr_families = None\<rparr>"

definition parse_config_member ::
  "jsonc \<Rightarrow> string \<times> json \<Rightarrow> tas_ctx \<times> conf_vars \<Rightarrow> (tas_ctx \<times> conf_vars) res" where
  "parse_config_member jc kv s =
     (case (kv, s) of ((key, val), (ctx, cv)) \<Rightarrow>
        case val of
          JString str \<Rightarrow>
            if cstr key = TAS_SOCKET_PATH_KEY then Inr (ctx, cv\<lparr>cv_socket_path := Some (cstr str)\<rparr>)
            else if cstr key = TAS_DB_PATH_KEY then Inr (ctx, cv\<lparr>cv_db_path := Some (cstr str)\<rparr>)
            else if cstr key = TAS_LOG_PATH_KEY then Inr (ctx, cv\<lparr>cv_log_path := Some (cstr str)\<rparr>)
            else Inr s
        | JInt n \<Rightarrow>
            if cstr key = TAS_TABLE_OFFSET_KEY then
              Inr (ctx\<lparr>table_offset := word_of_int (jc_get_int jc n)\<rparr>, cv)
            else if cstr key = TAS_NUM_TABLES_KEY then
              Inr (ctx\<lparr>num_tables := word_of_int (jc_get_int jc n)\<rparr>, cv)
            else if cstr key = TAS_TABLE_TIMEOUT_KEY then
              Inr (ctx\<lparr>table_timeout := word_of_int (jc_get_int jc n)\<rparr>, cv)
            else Inr s
        | JBool b \<Rightarrow>
            if cstr key = TAS_DO_SYSLOG_KEY then Inr (ctx\<lparr>use_syslog := of_bool b\<rparr>, cv) else Inr s
        | JObject kvs \<Rightarrow>
            if cstr key = TAS_ADDR_FAMILIES_KEY
            then Inr (ctx, cv\<lparr>cv_addr_families := Some (JObject kvs)\<rparr>) else Inr s
        | _ \<Rightarrow> Inr s)"

record start_env =
  conf_file :: "string option"       \<comment> \<open>contents, \<open>None\<close> if \<open>fopen\<close> fails\<close>
  conf_ferror :: bool
  log_opens :: "string \<Rightarrow> bool"
  calloc_ok :: "u8 \<Rightarrow> bool"
  db_open_rc :: int
  db_exec_rc :: int
  db_prepare_rcs :: "int list"
  loop_init_rc :: int
  udp_init_rc :: int
  timer_init_rc :: int
  timer_start_rc :: int
  dead_init_rc :: int
  dead_start_rc :: int
  start_clock :: "int option"
  map_prepare_rc :: int
  map_rc :: sql_rc

definition configure_table_db :: "start_env \<Rightarrow> bool" where
  "configure_table_db env =
     table_allocator_server_sqlite_create_db (db_open_rc env) (db_exec_rc env) (db_prepare_rcs env)"

text \<open>
  \<open>fread\<close> is asked for one item of 1024 bytes: it fills the buffer with the first 1024 bytes of the
  file and answers 1 if there were so many, 0 otherwise.
\<close>

definition fread_conf :: "string \<Rightarrow> nat \<times> string" where
  "fread_conf file = (if CONF_FILE_BUF \<le> length file then 1 else 0,
     take CONF_FILE_BUF file @ zero_buf (CONF_FILE_BUF - length file))"

text \<open>
  The tail of \<open>parse_config\<close>, once the members are read. A mask without a family is reported
  and \<open>conf_obj\<close> put, but the function goes on, and every later exit puts it a second time.
\<close>

definition accept_tables :: "bool \<Rightarrow> tas_ctx option \<Rightarrow> tas_ctx option res" where
  "accept_tables db_ok r =
     (case r of
        None \<Rightarrow> Inr None
      | Some ctx \<Rightarrow> if db_ok then Inr (Some ctx) else Inr None)"

definition finish_config :: "start_env \<Rightarrow> tas_ctx \<Rightarrow> conf_vars \<Rightarrow> tas_ctx option res" where
  "finish_config env ctx cv =
     (case (cv_socket_path cv, cv_db_path cv, cv_addr_families cv) of
        (Some sp, Some dp, Some fams) \<Rightarrow>
          if table_offset ctx = 0 \<or> num_tables ctx = 0 \<or> table_timeout ctx = 0 then Inr None
          else if length sp > TA_SHARED_MAX_ADDR_SIZE then Inr None
          else bindR (memcpy_buf (socket_path ctx) sp) (\<lambda>sp_buf.
            let ctx = ctx\<lparr>socket_path := sp_buf\<rparr> in
            if length dp \<ge> MAX_DB_PATH_LEN then Inr None
            else bindR (memcpy_buf (db_path ctx) dp) (\<lambda>dp_buf.
              let ctx = ctx\<lparr>db_path := dp_buf\<rparr> in
              if table_offset ctx + num_tables ctx \<le> table_offset ctx then Inr None
              else if (case cv_log_path cv of Some l \<Rightarrow> \<not> log_opens env l | None \<Rightarrow> False) then Inr None
              else bindR (parse_addr_families fams 0) (\<lambda>addr_fam_mask.
                bindR (configure_rt_tables (calloc_ok env) ctx addr_fam_mask) (\<lambda>r.
                  if addr_fam_mask = 0 then Inl Use_after_free
                  else accept_tables (configure_table_db env) r))))
      | _ \<Rightarrow> Inr None)"

definition parse_config :: "jsonc \<Rightarrow> start_env \<Rightarrow> tas_ctx \<Rightarrow> tas_ctx option res" where
  "parse_config jc env ctx =
     (case conf_file env of
        None \<Rightarrow> Inr None
      | Some file \<Rightarrow>
          case fread_conf file of (num_bytes, conf_file_buf) \<Rightarrow>
          if conf_ferror env then Inr None
          else if num_bytes = CONF_FILE_BUF then Inr None
          else bindR (c_string conf_file_buf) (\<lambda>txt.
            case jc_parse jc txt of
              None \<Rightarrow> Inr None
            | Some conf_obj \<Rightarrow>
                bindR (foreach_member conf_obj (parse_config_member jc) (ctx, no_conf))
                  (\<lambda>(ctx1, cv). finish_config env ctx1 cv)))"

section \<open>Start\<close>

definition populate_table_map_cb :: check_table_cb where
  "populate_table_map_cb addr_family rt_table ctx =
     table_allocator_server_clients_set_table addr_family rt_table ctx"

definition dead_leases_timeout_cb :: "int option \<Rightarrow> sql_rc \<Rightarrow> sql_rc \<Rightarrow> tas_ctx \<Rightarrow> tas_ctx res" where
  "dead_leases_timeout_cb = table_allocator_server_clients_delete_dead_leases"

definition DEAD_LEASE_TIMEOUT :: nat where "DEAD_LEASE_TIMEOUT = 300000"

text \<open>
  \<open>main\<close> up to \<open>uv_run\<close>: \<open>opts\<close> are the results of \<open>getopt\<close> in order, \<open>allocs\<close> whether the two
  allocations succeed, \<open>rows\<close> the database the file holds.
\<close>

fun server_options :: "(char \<times> string) list \<Rightarrow> string option \<Rightarrow> string option res" where
  "server_options [] path = Inr path"
| "server_options ((c, optarg) # opts) path =
     (if c = CHR ''c'' then server_options opts (Some optarg) else Inl Exit_failure)"

text \<open>The log line before \<open>uv_run\<close> prints both paths as strings.\<close>

definition log_started :: "tas_ctx \<Rightarrow> tas_ctx res" where
  "log_started ctx = bindR (c_string (socket_path ctx)) (\<lambda>_. bindR (c_string (db_path ctx)) (\<lambda>_. Inr ctx))"

definition server_main ::
  "jsonc \<Rightarrow> (string \<Rightarrow> start_env) \<Rightarrow> bool \<times> bool \<Rightarrow> (char \<times> string) list \<Rightarrow> rt_row list \<Rightarrow> tas_ctx res" where
  "server_main jc envs allocs opts rows =
     bindR (server_options opts None) (\<lambda>conf_file_path.
       case conf_file_path of
         None \<Rightarrow> Inl Exit_failure
       | Some path \<Rightarrow>
           let env = envs path in
           if \<not> fst allocs \<or> \<not> snd allocs then Inl Exit_failure
           else if loop_init_rc env \<noteq> 0 then Inl Exit_failure
           else bindR (parse_config jc env (calloc_ctx rows)) (\<lambda>r.
             case r of
               None \<Rightarrow> Inl Exit_failure
             | Some ctx \<Rightarrow>
                 case ta_allocator_libuv_helpers_configure_unix_handle (udp_init_rc env)
                        (timer_init_rc env) (timer_start_rc env) of (ok, es) \<Rightarrow>
                 if \<not> ok then Inl Exit_failure
                 else if dead_init_rc env \<noteq> 0 then Inl Exit_failure
                 else if dead_start_rc env \<noteq> 0 then Inl Exit_failure
                 else let ctx = emit (es @ [Timer_init Dead_leases_timeout,
                              Timer_start Dead_leases_timeout DEAD_LEASE_TIMEOUT DEAD_LEASE_TIMEOUT]) ctx in
                   case start_clock env of
                     None \<Rightarrow> Inl Exit_failure
                   | Some tv_sec \<Rightarrow>
                       bindR (table_allocator_sqlite_build_table_map (map_prepare_rc env) (map_rc env) ctx
                                (word_of_int tv_sec) populate_table_map_cb)
                         (\<lambda>(ok, ctx'). log_started ctx')))"

section \<open>Lemmas\<close>

lemma parse_config_member_frame:
  assumes "parse_config_member jc kv (ctx, cv) = Inr (ctx', cv')"
  shows "\<exists>off n t l. ctx' = ctx\<lparr>table_offset := off, num_tables := n, table_timeout := t, use_syslog := l\<rparr>"
proof -
  obtain key val where kv: "kv = (key, val)" by fastforce
  have "(\<exists>x. ctx' = ctx\<lparr>table_offset := x\<rparr>) \<or> (\<exists>x. ctx' = ctx\<lparr>num_tables := x\<rparr>)
      \<or> (\<exists>x. ctx' = ctx\<lparr>table_timeout := x\<rparr>) \<or> (\<exists>x. ctx' = ctx\<lparr>use_syslog := x\<rparr>) \<or> ctx' = ctx"
    using assms by (cases val) (auto simp: parse_config_member_def kv split: if_splits)
  then show ?thesis by (cases ctx) auto
qed

lemma parse_config_members_frame:
  assumes "foldR (parse_config_member jc) kvs (ctx, cv) = Inr (ctx', cv')"
  shows "\<exists>off n t l. ctx' = ctx\<lparr>table_offset := off, num_tables := n, table_timeout := t, use_syslog := l\<rparr>"
proof -
  let ?P = "\<lambda>s :: tas_ctx \<times> conf_vars.
    \<exists>off n t l. fst s = ctx\<lparr>table_offset := off, num_tables := n, table_timeout := t, use_syslog := l\<rparr>"
  have init: "?P (ctx, cv)" by (cases ctx) auto
  have "?P s'" if p: "?P s" "parse_config_member jc kv s = Inr s'" for kv s s'
  proof -
    obtain c v c' v' where eq: "s = (c, v)" "s' = (c', v')" by fastforce
    from parse_config_member_frame p(2) eq obtain off n t l where
      "c' = c\<lparr>table_offset := off, num_tables := n, table_timeout := t, use_syslog := l\<rparr>" by blast
    moreover obtain off' n' t' l' where
      "c = ctx\<lparr>table_offset := off', num_tables := n', table_timeout := t', use_syslog := l'\<rparr>"
      using p(1) eq by auto
    ultimately have "c' = ctx\<lparr>table_offset := off, num_tables := n, table_timeout := t, use_syslog := l\<rparr>"
      by simp
    with eq show ?thesis by auto
  qed
  with foldR_invariant [where P = ?P, OF assms init] show ?thesis by simp
qed

text \<open>The context an accepted configuration leaves.\<close>

definition configured :: "rt_row list \<Rightarrow> tas_ctx \<Rightarrow> bool" where
  "configured rows ctx \<longleftrightarrow>
     num_tables ctx \<noteq> 0 \<and> table_offset ctx \<noteq> 0 \<and> table_timeout ctx \<noteq> 0
     \<and> unat (table_offset ctx) + unat (num_tables ctx) < 2 ^ 32
     \<and> (tables_inet ctx \<noteq> None \<or> tables_inet6 ctx \<noteq> None \<or> tables_unspec ctx \<noteq> None)
     \<and> (\<forall>f i. family_map ctx f \<noteq> None \<longrightarrow> ctx_free ctx f i = (i < capacity ctx))
     \<and> rt_rows ctx = rows \<and> length (socket_path ctx) = TA_SHARED_MAX_ADDR_SIZE
     \<and> client_req_buffer ctx = zero_buf CLIENT_REQ_BUFFER_SIZE"

lemma wrap_check: "\<not> (off + n :: u32) \<le> off \<Longrightarrow> unat off + unat n < 2 ^ 32"
  using no_olen_add_nat [of off n] olen_add_eqv [of off n]
  by (simp add: word_le_nat_alt)

lemma families_mask_bits: "mask = mask AND 7 \<Longrightarrow> mask \<noteq> 0 \<Longrightarrow>
   mask AND ADDR_FAMILY_INET \<noteq> 0 \<or> mask AND ADDR_FAMILY_INET6 \<noteq> 0 \<or> mask AND ADDR_FAMILY_UNSPEC \<noteq> 0"
  for mask :: u8
proof (rule ccontr)
  assume mask: "mask = mask AND 7" "mask \<noteq> 0"
    and none: "\<not> (mask AND ADDR_FAMILY_INET \<noteq> 0 \<or> mask AND ADDR_FAMILY_INET6 \<noteq> 0 \<or> mask AND ADDR_FAMILY_UNSPEC \<noteq> 0)"
  have "(7 :: u8) = ADDR_FAMILY_INET OR ADDR_FAMILY_INET6 OR ADDR_FAMILY_UNSPEC" by (simp add: mask_defs)
  then have "mask AND 7 = mask AND ADDR_FAMILY_INET OR mask AND ADDR_FAMILY_INET6 OR mask AND ADDR_FAMILY_UNSPEC"
    by (simp only: bit.conj_disj_distrib or.assoc)
  with mask none show False by simp
qed

lemma parse_addr_families_mask:
  assumes "parse_addr_families fams 0 = Inr m"
  shows "m = m AND 7"
proof -
  obtain kvs where kvs: "fams = JObject kvs"
    using assms by (cases fams) (simp_all add: parse_addr_families_def foreach_member_def)
  have "m AND 7 = m"
    using assms unfolding parse_addr_families_def foreach_member_def kvs json.case
    by (rule foldR_invariant)
      (auto simp: mask_defs bit.conj_disj_distrib2 split: json.splits if_splits)
  then show ?thesis by simp
qed

lemma accept_iff: "(accept_tables ok r = Inr (Some y)) = (r = Some y \<and> ok)"
  by (cases r) (auto simp: accept_tables_def)

lemma finish_config_cases:
  assumes "finish_config env ctx cv = Inr (Some ctx')"
  obtains sp dp spb dpb mask where
    "table_offset ctx \<noteq> 0" "num_tables ctx \<noteq> 0" "table_timeout ctx \<noteq> 0"
    "length sp \<le> TA_SHARED_MAX_ADDR_SIZE" "memcpy_buf (socket_path ctx) sp = Inr spb"
    "cv_socket_path cv = Some sp"
    "memcpy_buf (db_path ctx) dp = Inr dpb"
    "\<not> table_offset ctx + num_tables ctx \<le> table_offset ctx"
    "mask \<noteq> 0" "mask = mask AND 7"
    "configure_rt_tables (calloc_ok env) (ctx\<lparr>socket_path := spb, db_path := dpb\<rparr>) mask = Inr (Some ctx')"
  using assms
  by (auto simp: finish_config_def Let_def res_simps not_less accept_iff split: option.split_asm if_split_asm
      dest: parse_addr_families_mask)

lemma parse_config_configured:
  assumes "parse_config jc env (calloc_ctx rows) = Inr (Some ctx')"
  shows "configured rows ctx' \<and> (unat (num_tables ctx') \<le> 2 ^ 32 - 32 \<longrightarrow> geometry ctx')"
proof -
  obtain kvs ctx cv where members: "foldR (parse_config_member jc) kvs (calloc_ctx rows, no_conf) = Inr (ctx, cv)"
    and fin: "finish_config env ctx cv = Inr (Some ctx')"
  proof -
    obtain conf body obj where "conf_file env = Some conf" "c_string (snd (fread_conf conf)) = Inr body"
        "jc_parse jc body = Some obj"
        and fold: "bindR (foreach_member obj (parse_config_member jc) (calloc_ctx rows, no_conf))
          (\<lambda>(ctx1, cv). finish_config env ctx1 cv) = Inr (Some ctx')"
      using assms by (auto simp: parse_config_def bindR_Inr_iff split: option.split_asm prod.split_asm if_split_asm)
    then obtain s where s: "foreach_member obj (parse_config_member jc) (calloc_ctx rows, no_conf) = Inr s"
        "finish_config env (fst s) (snd s) = Inr (Some ctx')"
      by (auto simp: bindR_Inr_iff)
    then obtain kvs where "obj = JObject kvs" by (cases obj) (simp_all add: foreach_member_def)
    with s show ?thesis using that [of kvs "fst s" "snd s"] by (simp add: foreach_member_def)
  qed
  obtain off n t l where ctx: "ctx = (calloc_ctx rows)\<lparr>table_offset := off, num_tables := n, table_timeout := t, use_syslog := l\<rparr>"
    using parse_config_members_frame [OF members] by blast
  from fin show ?thesis
  proof (cases rule: finish_config_cases)
    case (1 sp dp spb dpb mask)
    let ?c = "ctx\<lparr>socket_path := spb, db_path := dpb\<rparr>"
    have "tables_inet ?c = None" "tables_inet6 ?c = None" "tables_unspec ?c = None"
      by (simp_all add: ctx calloc_ctx_def)
    with configure_rt_tables_result [OF 1(11)] have c': "ctx' = fresh_maps mask ?c" by simp
    have nums: "0 < table_offset ?c" "unat (table_offset ?c) + unat (num_tables ?c) < 2 ^ 32"
      using 1(1) wrap_check [OF 1(8)] by (simp_all add: word_gt_0)
    have "tables_inet ctx' \<noteq> None \<or> tables_inet6 ctx' \<noteq> None \<or> tables_unspec ctx' \<noteq> None"
      unfolding c' fresh_maps_enabled using families_mask_bits [OF 1(10,9)] .
    moreover have "length spb = TA_SHARED_MAX_ADDR_SIZE"
      using memcpy_buf_length [OF 1(5)] by (simp add: ctx calloc_ctx_def length_zero_buf)
    moreover have "\<forall>f i. family_map ctx' f \<noteq> None \<longrightarrow> ctx_free ctx' f i = (i < capacity ctx')"
      using fresh_maps_free c' by blast
    moreover have "rt_rows ctx' = rows" "client_req_buffer ctx' = zero_buf CLIENT_REQ_BUFFER_SIZE"
      by (simp_all add: c' ctx calloc_ctx_def)
    ultimately show ?thesis
      using nums 1(1-3) fresh_maps_geometry [OF nums, of mask] by (simp add: configured_def c')
  qed
qed

section \<open>Rebuilding the maps\<close>

lemma set_table_row:
  assumes "geometry ctx" and "row_ok ctx r"
  shows "set_table ctx (row_fam r) (row_tbl r) = Inr (toggle_id ctx (row_fam r) (row_id ctx r))"
  using assms set_table_eq by (simp add: row_ok_def row_id_def)

text \<open>Setting the bits of rows with distinct keys whose bits are free takes exactly these.\<close>

lemma set_rows:
  assumes "geometry ctx" and "\<forall>r \<in> set rs. row_ok ctx r \<and> ctx_free ctx (row_fam r) (row_id ctx r)"
    and "distinct (map (\<lambda>r. (row_fam r, row_id ctx r)) rs)"
  shows "\<exists>ctx'. foldR (\<lambda>r c. set_table c (row_fam r) (row_tbl r)) rs ctx = Inr ctx'
    \<and> rt_rows ctx' = rt_rows ctx \<and> row_ok ctx' = row_ok ctx \<and> row_id ctx' = row_id ctx \<and> geometry ctx'
    \<and> num_tables ctx' = num_tables ctx \<and> same_io ctx ctx'
    \<and> (\<forall>f. (family_map ctx' f = None) = (family_map ctx f = None))
    \<and> (\<forall>f i. valid_family f \<longrightarrow> ctx_free ctx' f i =
         (ctx_free ctx f i \<and> \<not> (\<exists>r \<in> set rs. row_fam r = f \<and> row_id ctx r = i)))"
  using assms
proof (induction rs arbitrary: ctx)
  case Nil
  then show ?case by auto
next
  case (Cons r rs)
  let ?c = "toggle_id ctx (row_fam r) (row_id ctx r)"
  have r: "row_ok ctx r" "ctx_free ctx (row_fam r) (row_id ctx r)" using Cons.prems(2) by simp_all
  then have row: "family_map ctx (row_fam r) \<noteq> None" "row_id ctx r < capacity ctx" "valid_family (row_fam r)"
    by (auto simp: row_ok_def)
  have free: "ctx_free ?c f i = (ctx_free ctx f i \<and> \<not> (row_fam r = f \<and> row_id ctx r = i))" if "valid_family f" for f i
    using ctx_free_toggle [OF Cons.prems(1) row(1,2), of f i] valid_same_map [OF row(3) that] r(2) by auto
  have "\<forall>q \<in> set rs. row_ok ?c q \<and> ctx_free ?c (row_fam q) (row_id ?c q)"
  proof
    fix q assume q: "q \<in> set rs"
    then have "row_ok ctx q" "ctx_free ctx (row_fam q) (row_id ctx q)" using Cons.prems(2) by simp_all
    moreover have "\<not> (row_fam r = row_fam q \<and> row_id ctx r = row_id ctx q)"
      using Cons.prems(3) q by (auto simp: image_iff)
    moreover have "valid_family (row_fam q)" using \<open>row_ok ctx q\<close> by (simp add: row_ok_def)
    ultimately show "row_ok ?c q \<and> ctx_free ?c (row_fam q) (row_id ?c q)" using free by simp
  qed
  then obtain c' where c': "foldR (\<lambda>r c. set_table c (row_fam r) (row_tbl r)) rs ?c = Inr c'"
      "rt_rows c' = rt_rows ctx" "row_ok c' = row_ok ctx" "row_id c' = row_id ctx" "geometry c'"
      "num_tables c' = num_tables ctx" "same_io ?c c'"
      "\<forall>f. (family_map c' f = None) = (family_map ?c f = None)"
      "\<forall>f i. valid_family f \<longrightarrow> ctx_free c' f i =
         (ctx_free ?c f i \<and> \<not> (\<exists>r \<in> set rs. row_fam r = f \<and> row_id ctx r = i))"
    using Cons.IH [of ?c] Cons.prems(1,3) by auto
  have "foldR (\<lambda>r c. set_table c (row_fam r) (row_tbl r)) (r # rs) ctx = Inr c'"
    using c'(1) set_table_row [OF Cons.prems(1) r(1)] by simp
  moreover have "same_io ctx c'" using same_io_trans [OF same_io_rules(2) c'(7)] .
  moreover have "\<forall>f. (family_map c' f = None) = (family_map ctx f = None)" using c'(8) by simp
  moreover have "\<forall>f i. valid_family f \<longrightarrow> ctx_free c' f i =
      (ctx_free ctx f i \<and> \<not> (\<exists>q \<in> set (r # rs). row_fam q = f \<and> row_id ctx q = i))"
    using c'(9) free by auto
  ultimately show ?case using c'(2-6) by blast
qed

lemma build_map_alive:
  assumes "map_rc' = sql_ok" and "clock_ok now"
  shows "table_allocator_sqlite_build_table_map 0 map_rc' ctx (word_of_int now) populate_table_map_cb
    = bindR (foldR (\<lambda>r c. set_table c (row_fam r) (row_tbl r)) (filter (\<lambda>r. now < LeaseExpires r) (rt_rows ctx)) ctx)
        (\<lambda>ctx'. Inr (True, ctx'))"
proof -
  have fold: "foldR g (map h xs) s = foldR (\<lambda>x. g (h x)) xs s"
    for g :: "int \<times> int \<Rightarrow> tas_ctx \<Rightarrow> tas_ctx res" and h and xs :: "rt_row list" and s
    by (induction xs arbitrary: s) (auto intro!: bindR_cong)
  show ?thesis
    using assms by (simp add: table_allocator_sqlite_build_table_map_def run_check_table_def
        select_alive_leases_def fold clock_ok_sint populate_table_map_cb_def [abs_def]
        table_allocator_server_clients_set_table_def row_fam_def row_tbl_def)
qed

lemma row_keys_distinct:
  assumes "primary_key rows" and "\<forall>r \<in> set rows. row_ok ctx r"
  shows "distinct (map (\<lambda>r. (row_fam r, row_id ctx r)) rows)"
proof -
  have "r = q" if rq: "r \<in> set rows" "q \<in> set rows" "(row_fam r, row_id ctx r) = (row_fam q, row_id ctx q)" for r q
  proof -
    have "row_tbl r = row_tbl q" "row_fam r = row_fam q"
      using rq(3) table_id_inject by (auto simp: row_id_def)
    then have "RtTable r = RtTable q" "AddrFamily r = AddrFamily q"
      using rq(1,2) assms(2) unfolding row_ok_def by metis+
    then show ?thesis using rq(1,2) assms(1) by (auto simp: primary_key_def distinct_map inj_on_def)
  qed
  then show ?thesis
    using assms(1) by (auto simp: primary_key_def distinct_map inj_on_def)
qed

lemma emit_frame [simp]:
  "family_map (emit es ctx) = family_map ctx" "ctx_free (emit es ctx) = ctx_free ctx"
  "capacity (emit es ctx) = capacity ctx" "geometry (emit es ctx) = geometry ctx"
  "row_id (emit es ctx) = row_id ctx" "row_ok (emit es ctx) = row_ok ctx"
  by (simp_all add: fun_eq_iff family_map_def ctx_free_def capacity_def geometry_def row_id_def
      table_id_def row_ok_def)

lemma log_started_iff:
  "(log_started ctx = Inr ctx') = (ctx' = ctx \<and> NUL \<in> set (socket_path ctx) \<and> NUL \<in> set (db_path ctx))"
  by (auto simp: log_started_def c_string_def)

lemma server_main_cases:
  assumes "server_main jc envs allocs opts rows = Inr ctx'"
  obtains path ctx es now ok where
    "server_options opts None = Inr (Some path)"
    "parse_config jc (envs path) (calloc_ctx rows) = Inr (Some ctx)"
    "start_clock (envs path) = Some now"
    "table_allocator_sqlite_build_table_map (map_prepare_rc (envs path)) (map_rc (envs path)) (emit es ctx)
       (word_of_int now) populate_table_map_cb = Inr (ok, ctx')"
    "NUL \<in> set (socket_path ctx')"
proof -
  obtain path where p: "server_options opts None = Inr (Some path)"
    using assms by (auto simp: server_main_def bindR_Inr_iff split: option.split_asm)
  let ?env = "envs path"
  obtain r where r: "parse_config jc ?env (calloc_ctx rows) = Inr r"
    using assms p by (auto simp: server_main_def bindR_Inr_iff Let_def split: if_split_asm)
  then obtain ctx where c: "r = Some ctx"
    using assms p by (cases r) (auto simp: server_main_def Let_def split: if_split_asm)
  obtain ok es where u: "ta_allocator_libuv_helpers_configure_unix_handle (udp_init_rc ?env)
      (timer_init_rc ?env) (timer_start_rc ?env) = (ok, es)" by fastforce
  obtain now where n: "start_clock ?env = Some now"
    using assms p r c u by (cases "start_clock ?env") (auto simp: server_main_def Let_def split: if_split_asm)
  show thesis
    using that [OF p r [unfolded c] n] assms p r c u n
    by (auto simp: server_main_def Let_def bindR_Inr_iff log_started_iff split: if_split_asm)
qed

text \<open>What setting bits never changes.\<close>

definition same_shape :: "tas_ctx \<Rightarrow> tas_ctx \<Rightarrow> bool" where
  "same_shape ctx ctx' \<longleftrightarrow> num_tables ctx' = num_tables ctx \<and> table_offset ctx' = table_offset ctx
     \<and> num_table_elements ctx' = num_table_elements ctx \<and> same_io ctx ctx'
     \<and> (\<forall>f. (family_map ctx' f = None) = (family_map ctx f = None))"

lemma set_table_shape:
  assumes "set_table ctx f t = Inr ctx'"
  shows "same_shape ctx ctx'"
proof (cases "element_index ctx t \<ge> num_table_elements ctx")
  case True
  with assms show ?thesis by (simp add: set_table_def same_shape_def)
next
  case False
  then obtain m where m: "table_xor (family_map ctx f) (unat (element_index ctx t))
      (push_bit (unat (element_bit ctx t)) 1) = Inr m" "ctx' = update_family_map ctx f m"
    using assms by (auto simp: set_table_def bindR_Inr_iff)
  then have "m \<noteq> None" "family_map ctx f \<noteq> None" by (cases "family_map ctx f"; auto split: if_splits)+
  then have "(family_map ctx' g = None) = (family_map ctx g = None)" for g
    unfolding m(2) family_map_update using same_map_family [of f g ctx] by (cases "same_map f g") auto
  then show ?thesis
    using m(2) by (simp add: same_shape_def)
qed

lemma set_rows_shape:
  assumes "foldR (\<lambda>r c. set_table c (row_fam r) (row_tbl r)) rs ctx = Inr ctx'"
  shows "same_shape ctx ctx'"
  using assms
proof (rule foldR_invariant)
  show "same_shape ctx ctx" by (simp add: same_shape_def)
next
  fix r c c'
  assume "same_shape ctx c" "set_table c (row_fam r) (row_tbl r) = Inr c'"
  then show "same_shape ctx c'"
    using set_table_shape [of c "row_fam r" "row_tbl r" c'] same_io_trans [of ctx c c']
    by (simp add: same_shape_def)
qed

lemma same_shape_rows: "same_shape ctx ctx' \<Longrightarrow> row_ok ctx' = row_ok ctx \<and> row_id ctx' = row_id ctx \<and> capacity ctx' = capacity ctx"
  by (auto simp: same_shape_def row_ok_def row_id_def table_id_def capacity_def fun_eq_iff)

section \<open>What the configuration does not check\<close>

text \<open>The size check on the configuration file never fires (\<open>fread\<close> counts items, not
  bytes): a file of 1024 or more bytes fills the buffer, which is then parsed as a string although
  nothing terminates it; a shorter file is parsed as it is.\<close>

lemma config_size_check_is_dead:
  assumes "conf_file env = Some conf" and "\<not> conf_ferror env" and "NUL \<notin> set conf"
  shows "(CONF_FILE_BUF \<le> length conf \<longrightarrow> parse_config jc env ctx = Inl Out_of_bounds)
    \<and> (length conf < CONF_FILE_BUF \<and> jc_parse jc conf = None \<longrightarrow> parse_config jc env ctx = Inr None)"
proof (intro conjI impI)
  assume len: "CONF_FILE_BUF \<le> length conf"
  then have "NUL \<notin> set (take CONF_FILE_BUF conf @ zero_buf (CONF_FILE_BUF - length conf))"
    using assms(3) by (auto simp: zero_buf_def dest: in_set_takeD)
  with assms len show "parse_config jc env ctx = Inl Out_of_bounds"
    by (simp add: parse_config_def fread_conf_def c_string_def CONF_FILE_BUF_def)
next
  assume len: "length conf < CONF_FILE_BUF \<and> jc_parse jc conf = None"
  then have "NUL \<in> set (zero_buf (CONF_FILE_BUF - length conf))" by (simp add: zero_buf_def)
  with assms len show "parse_config jc env ctx = Inr None"
    by (auto simp: parse_config_def fread_conf_def c_string_def CONF_FILE_BUF_def cstr_padded)
qed

text \<open>A configuration that is otherwise acceptable but enables no family is reported, and
  then used although it has been released: the function does not return after the report.\<close>

lemma config_without_family_faults:
  assumes "cv_socket_path cv = Some sp" "cv_db_path cv = Some dp" "cv_addr_families cv = Some fams"
    and "table_offset ctx \<noteq> 0" "num_tables ctx \<noteq> 0" "table_timeout ctx \<noteq> 0"
    and "length sp \<le> TA_SHARED_MAX_ADDR_SIZE" "length (socket_path ctx) = TA_SHARED_MAX_ADDR_SIZE"
    and "length dp < MAX_DB_PATH_LEN" "length (db_path ctx) = MAX_DB_PATH_LEN"
    and "table_offset ctx < table_offset ctx + num_tables ctx" and "cv_log_path cv = None"
    and "parse_addr_families fams 0 = Inr 0"
  shows "finish_config env ctx cv = Inl Use_after_free"
proof -
  have "configure_rt_tables (calloc_ok env) c 0 = Inr (Some (c\<lparr>num_table_elements := num_elements_for (num_tables c)\<rparr>))" for c
    by (simp add: configure_rt_tables_def new_table_def Let_def)
  with assms show ?thesis
    by (simp add: finish_config_def memcpy_buf_def not_le Let_def)
qed

text \<open>A socket path of exactly 106 characters passes the length check and fills its field,
  so the log line at the end of \<open>main\<close>, and the socket timer after it, read a string that is not
  terminated.\<close>

lemma socket_path_unterminated:
  assumes "parse_config jc env (calloc_ctx rows) = Inr (Some ctx')" and "NUL \<notin> set (socket_path ctx')"
  shows "log_started ctx' = Inl Out_of_bounds \<and> unix_socket_timeout_cb e ctx' = Inl Out_of_bounds
    \<and> length (socket_path ctx') = TA_SHARED_MAX_ADDR_SIZE"
  using assms(2) parse_config_configured [OF assms(1)]
  by (simp add: log_started_def unix_socket_timeout_cb_def c_string_def configured_def)

text \<open>What the rebuilding of the maps leaves: exactly the live leases taken.\<close>

lemma server_rebuilds:
  assumes "server_main jc envs allocs opts rows = Inr ctx'"
    and "\<And>path. map_prepare_rc (envs path) = 0 \<and> map_rc (envs path) = sql_ok \<and> start_clock (envs path) = Some now"
    and "clock_ok now" and "primary_key rows" and "\<forall>r \<in> set rows. row_ok ctx' r"
    and "unat (num_tables ctx') \<le> 2 ^ 32 - 32"
  shows "geometry ctx' \<and> rt_rows ctx' = rows \<and> client_req_buffer ctx' = zero_buf CLIENT_REQ_BUFFER_SIZE
    \<and> (\<forall>f i. valid_family f \<longrightarrow> family_map ctx' f \<noteq> None \<longrightarrow> ctx_free ctx' f i =
       (i < capacity ctx' \<and> \<not> (\<exists>r \<in> set rows. now < LeaseExpires r \<and> row_fam r = f \<and> row_id ctx' r = i)))"
proof -
  obtain path ctx es ok where conf: "parse_config jc (envs path) (calloc_ctx rows) = Inr (Some ctx)"
    and "table_allocator_sqlite_build_table_map (map_prepare_rc (envs path)) (map_rc (envs path)) (emit es ctx)
       (word_of_int now) populate_table_map_cb = Inr (ok, ctx')"
    using assms(2) by (rule_tac server_main_cases [OF assms(1)]) fastforce
  then have build: "table_allocator_sqlite_build_table_map 0 sql_ok (emit es ctx)
       (word_of_int now) populate_table_map_cb = Inr (ok, ctx')" using assms(2) by simp
  let ?alive = "filter (\<lambda>r. now < LeaseExpires r) rows"
  have c: "configured rows ctx" "unat (num_tables ctx) \<le> 2 ^ 32 - 32 \<longrightarrow> geometry ctx"
    using parse_config_configured [OF conf] by simp_all
  then have rows: "rt_rows (emit es ctx) = rows" by (simp add: configured_def)
  have fold: "foldR (\<lambda>r c. set_table c (row_fam r) (row_tbl r)) ?alive (emit es ctx) = Inr ctx'"
    using build unfolding build_map_alive [OF refl assms(3)] rows by (auto simp: bindR_Inr_iff)
  have shape: "same_shape (emit es ctx) ctx'" using set_rows_shape [OF fold] .
  then have n: "num_tables ctx' = num_tables ctx" by (simp add: same_shape_def)
  have geo: "geometry (emit es ctx)" using c(2) assms(6) n by simp
  have ok: "row_ok (emit es ctx) r" if "r \<in> set rows" for r
    using that assms(5) same_shape_rows [OF shape] by simp
  have fresh: "ctx_free (emit es ctx) f i = (i < capacity ctx)" if "family_map ctx f \<noteq> None" for f i
    using c(1) that by (simp add: configured_def)
  have keys: "distinct (map (\<lambda>r. (row_fam r, row_id (emit es ctx) r)) ?alive)"
    using row_keys_distinct [OF assms(4), of "emit es ctx"] ok by (auto intro: distinct_map_filter)
  have taken: "\<forall>r \<in> set ?alive. row_ok (emit es ctx) r \<and> ctx_free (emit es ctx) (row_fam r) (row_id (emit es ctx) r)"
    using ok fresh by (auto simp: row_ok_def)
  obtain d where "foldR (\<lambda>r c. set_table c (row_fam r) (row_tbl r)) ?alive (emit es ctx) = Inr d" and
      d: "rt_rows d = rows" "geometry d" "\<forall>f i. valid_family f \<longrightarrow> ctx_free d f i = (ctx_free (emit es ctx) f i
        \<and> \<not> (\<exists>r \<in> set ?alive. row_fam r = f \<and> row_id (emit es ctx) r = i))"
    using set_rows [OF geo taken keys] rows by auto
  with fold have [simp]: "d = ctx'" by simp
  have bits: "ctx_free ctx' f i = (i < capacity ctx' \<and> \<not> (\<exists>r \<in> set rows. now < LeaseExpires r \<and> row_fam r = f \<and> row_id ctx' r = i))"
    if "valid_family f" "family_map ctx' f \<noteq> None" for f i
  proof -
    have "family_map ctx f \<noteq> None" using shape that(2) by (simp add: same_shape_def)
    from fresh [OF this] show ?thesis
      using d(3) that(1) same_shape_rows [OF shape] by auto
  qed
  moreover have "client_req_buffer ctx' = zero_buf CLIENT_REQ_BUFFER_SIZE"
    using shape c(1) by (simp add: same_shape_def same_io_def configured_def)
  ultimately show ?thesis using d(1,2) by simp
qed

text \<open>Hence a start over such a database is safe, and in step when nothing has ended.\<close>

lemma server_main_path: "server_main jc envs allocs opts rows = Inr ctx' \<Longrightarrow> NUL \<in> set (socket_path ctx')"
  by (erule server_main_cases)

lemma rebuilt_safe:
  assumes "server_main jc envs allocs opts rows = Inr ctx'"
    and "\<And>path. map_prepare_rc (envs path) = 0 \<and> map_rc (envs path) = sql_ok \<and> start_clock (envs path) = Some now"
    and "clock_ok now" and "primary_key rows" and "\<forall>r \<in> set rows. row_ok ctx' r"
    and "unat (num_tables ctx') \<le> 2 ^ 32 - 32"
  shows "srv_safe (now, ctx')
    \<and> (\<forall>f i. valid_family f \<and> family_map ctx' f \<noteq> None \<longrightarrow> ctx_free ctx' f i =
         (i < capacity ctx' \<and> \<not> (\<exists>r \<in> set rows. now < LeaseExpires r \<and> row_fam r = f \<and> row_id ctx' r = i)))
    \<and> (one_lease rows \<and> (\<forall>r \<in> set rows. now < LeaseExpires r) \<and> 32 \<le> num_tables ctx' \<longrightarrow> synced ctx')"
proof -
  have d: "geometry ctx'" "rt_rows ctx' = rows" "client_req_buffer ctx' = zero_buf CLIENT_REQ_BUFFER_SIZE"
    and bits: "\<And>f i. valid_family f \<Longrightarrow> family_map ctx' f \<noteq> None \<Longrightarrow> ctx_free ctx' f i =
       (i < capacity ctx' \<and> \<not> (\<exists>r \<in> set rows. now < LeaseExpires r \<and> row_fam r = f \<and> row_id ctx' r = i))"
    using server_rebuilds [OF assms(1-6)] by blast+
  have wf: "srv_wf ctx'" using d assms(4,5) by (simp add: srv_wf_def)
  have "live_taken now ctx'"
    using bits d(2) assms(5) by (auto simp: live_taken_def row_ok_def)
  then have safe: "srv_safe (now, ctx')"
    using wf d(3) assms(3) server_main_path [OF assms(1)]
    by (simp add: srv_safe_def srv_inv_def terminated_zero_buf size_defs)
  have "synced ctx'" if all: "one_lease rows" "\<forall>r \<in> set rows. now < LeaseExpires r" "32 \<le> num_tables ctx'"
  proof -
    from num_tables_capacity [OF d(1)] all(3) have "i < capacity ctx'" if "i < unat (num_tables ctx')" for i
      using that by (simp add: word_le_nat_alt)
    then show ?thesis
      using wf bits all(1,2) d(2) by (auto simp: synced_def holds_def)
  qed
  with safe bits show ?thesis by blast
qed

text \<open>A start whose query for the live leases cannot be prepared or bound.\<close>

lemma server_main_unread:
  assumes "server_main jc envs allocs opts rows = Inr ctx'"
    and "\<And>path. map_prepare_rc (envs path) \<noteq> 0 \<or> bind_rc (map_rc (envs path)) \<noteq> 0"
    and "family_map ctx' f \<noteq> None"
  shows "ctx_free ctx' f i = (i < capacity ctx')"
  using assms(1)
proof (cases rule: server_main_cases)
  case (1 path ctx es now ok)
  have "ctx' = emit es ctx"
    using 1(4) assms(2) [of path] by (simp add: table_allocator_sqlite_build_table_map_def split: if_split_asm)
  moreover have "configured rows ctx" using parse_config_configured [OF 1(2)] by blast
  ultimately show ?thesis using assms(3) by (simp add: configured_def)
qed

section \<open>Properties\<close>

text \<open>C15: a configuration the server accepts has a nonempty range of table numbers that
  neither starts at 0 nor wraps, a lease time, and at least one family; every table of the families
  enabled is free, the other fields are those of the fresh context, and the sizes of the arrays are
  right up to the largest ranges.\<close>

theorem parse_config_accepts:
  assumes "parse_config jc env (calloc_ctx rows) = Inr (Some ctx')"
  shows "configured rows ctx' \<and> (unat (num_tables ctx') \<le> 2 ^ 32 - 32 \<longrightarrow> geometry ctx')"
  using assms by (rule parse_config_configured)

text \<open>C14: a server that reaches its event loop has a terminated socket path. If the rows of its
  database fit its configuration and the query for the live leases succeeds, it is in a safe state
  with exactly the tables of the live leases taken; if also all leases are alive, each client has one,
  and 32 tables or more are configured, the map and the database are in step. If the query cannot be
  prepared or bound, \<open>main\<close> goes on all the same, and every table is free, whoever holds it.\<close>

theorem startup_safe:
  assumes "server_main jc envs allocs opts rows = Inr ctx'"
    and "\<And>path. start_clock (envs path) = Some now" and "clock_ok now"
  shows "NUL \<in> set (socket_path ctx')
    \<and> ((\<forall>path. map_prepare_rc (envs path) = 0 \<and> map_rc (envs path) = sql_ok) \<and> primary_key rows
         \<and> (\<forall>r \<in> set rows. row_ok ctx' r) \<and> unat (num_tables ctx') \<le> 2 ^ 32 - 32 \<longrightarrow>
       srv_safe (now, ctx')
       \<and> (\<forall>f i. valid_family f \<and> family_map ctx' f \<noteq> None \<longrightarrow> ctx_free ctx' f i =
            (i < capacity ctx' \<and> \<not> (\<exists>r \<in> set rows. now < LeaseExpires r \<and> row_fam r = f \<and> row_id ctx' r = i)))
       \<and> (one_lease rows \<and> (\<forall>r \<in> set rows. now < LeaseExpires r) \<and> 32 \<le> num_tables ctx' \<longrightarrow> synced ctx'))
    \<and> ((\<forall>path. map_prepare_rc (envs path) \<noteq> 0 \<or> bind_rc (map_rc (envs path)) \<noteq> 0) \<longrightarrow>
       (\<forall>f i. family_map ctx' f \<noteq> None \<longrightarrow> ctx_free ctx' f i = (i < capacity ctx')))"
  using server_main_path [OF assms(1)] rebuilt_safe [OF assms(1) _ assms(3)] assms(2) server_main_unread [OF assms(1)]
  by (intro conjI impI allI) blast+

text \<open>C36: the table maps are rebuilt without looking at the families that are enabled: an
  alive row of a family the new configuration does not enable, at a table inside the map, makes the
  server dereference a null pointer at start.\<close>

theorem rebuild_of_disabled_family_faults:
  assumes "rt_rows ctx = dead @ r # rest" and "\<forall>q \<in> set dead. LeaseExpires q \<le> now"
    and "now < LeaseExpires r" and "family_map ctx (row_fam r) = None"
    and "element_index ctx (row_tbl r) < num_table_elements ctx" and "clock_ok now"
  shows "table_allocator_sqlite_build_table_map 0 sql_ok ctx (word_of_int now) populate_table_map_cb
    = Inl Null_pointer"
proof -
  have "filter (\<lambda>r. now < LeaseExpires r) (rt_rows ctx) = r # filter (\<lambda>r. now < LeaseExpires r) rest"
    using assms(1-3) by (auto simp: filter_empty_conv)
  moreover have "set_table ctx (row_fam r) (row_tbl r) = Inl Null_pointer"
    using assms(4,5) by (simp add: set_table_def)
  ultimately show ?thesis by (simp add: build_map_alive [OF refl assms(6)])
qed

section \<open>Witnesses\<close>

text \<open>The shipped \<^verbatim>\<open>server_config.json\<close>, with the socket path as a parameter.\<close>

definition shipped_conf :: "string \<Rightarrow> json" where
  "shipped_conf path = JObject [(TAS_SOCKET_PATH_KEY, JString path), (TAS_TABLE_OFFSET_KEY, JInt 10000),
     (TAS_NUM_TABLES_KEY, JInt 40), (TAS_TABLE_TIMEOUT_KEY, JInt 3600),
     (TAS_DB_PATH_KEY, JString ''/tmp/tas.db''), (TAS_DO_SYSLOG_KEY, JBool True),
     (TAS_ADDR_FAMILIES_KEY, JObject [(TAS_ADDR_FAMILIES_INET_KEY, JBool True),
        (TAS_ADDR_FAMILIES_INET6_KEY, JBool False), (TAS_ADDR_FAMILIES_UNSPEC_KEY, JBool False)])]"

definition conf_json :: "string \<Rightarrow> jsonc" where
  "conf_json path = ref_json\<lparr>jc_parse := (\<lambda>s. Some (shipped_conf path))\<rparr>"

definition ok_start :: "int \<Rightarrow> start_env" where
  "ok_start now = \<lparr>conf_file = Some ''{}'', conf_ferror = False, log_opens = (\<lambda>_. True),
     calloc_ok = (\<lambda>_. True), db_open_rc = 0, db_exec_rc = 0, db_prepare_rcs = [], loop_init_rc = 0,
     udp_init_rc = 0, timer_init_rc = 0, timer_start_rc = 0, dead_init_rc = 0, dead_start_rc = 0,
     start_clock = Some now, map_prepare_rc = 0, map_rc = sql_ok\<rparr>"

lemma tas_keys [simp]:
  "cstr TAS_SOCKET_PATH_KEY = TAS_SOCKET_PATH_KEY" "cstr TAS_TABLE_OFFSET_KEY = TAS_TABLE_OFFSET_KEY"
  "cstr TAS_NUM_TABLES_KEY = TAS_NUM_TABLES_KEY" "cstr TAS_TABLE_TIMEOUT_KEY = TAS_TABLE_TIMEOUT_KEY"
  "cstr TAS_DB_PATH_KEY = TAS_DB_PATH_KEY" "cstr TAS_DO_SYSLOG_KEY = TAS_DO_SYSLOG_KEY"
  "cstr TAS_ADDR_FAMILIES_KEY = TAS_ADDR_FAMILIES_KEY"
  "cstr TAS_ADDR_FAMILIES_INET_KEY = TAS_ADDR_FAMILIES_INET_KEY"
  "cstr TAS_ADDR_FAMILIES_INET6_KEY = TAS_ADDR_FAMILIES_INET6_KEY"
  "cstr TAS_ADDR_FAMILIES_UNSPEC_KEY = TAS_ADDR_FAMILIES_UNSPEC_KEY"
  "TAS_DB_PATH_KEY \<noteq> TAS_SOCKET_PATH_KEY" "TAS_NUM_TABLES_KEY \<noteq> TAS_TABLE_OFFSET_KEY"
  "TAS_TABLE_TIMEOUT_KEY \<noteq> TAS_TABLE_OFFSET_KEY" "TAS_TABLE_TIMEOUT_KEY \<noteq> TAS_NUM_TABLES_KEY"
  "TAS_ADDR_FAMILIES_INET6_KEY \<noteq> TAS_ADDR_FAMILIES_INET_KEY"
  "TAS_ADDR_FAMILIES_UNSPEC_KEY \<noteq> TAS_ADDR_FAMILIES_INET_KEY"
  "TAS_ADDR_FAMILIES_UNSPEC_KEY \<noteq> TAS_ADDR_FAMILIES_INET6_KEY"
  by (simp_all add: tas_key_defs)

definition shipped_ctx :: "string \<Rightarrow> rt_row list \<Rightarrow> tas_ctx" where
  "shipped_ctx path rows = fresh_maps 1 ((calloc_ctx rows)\<lparr>table_offset := 10000, num_tables := 40,
     table_timeout := 3600, use_syslog := 1, socket_path := path @ zero_buf (106 - length path),
     db_path := buf 256 ''/tmp/tas.db''\<rparr>)"

lemma shipped_families: "parse_addr_families (JObject [(TAS_ADDR_FAMILIES_INET_KEY, JBool True),
    (TAS_ADDR_FAMILIES_INET6_KEY, JBool False), (TAS_ADDR_FAMILIES_UNSPEC_KEY, JBool False)]) 0 = Inr 1"
  by (simp add: parse_addr_families_def foreach_member_def mask_defs)

lemma shipped_parse:
  assumes "length path \<le> 106" and "NUL \<notin> set path"
  shows "parse_config (conf_json path) (ok_start now) (calloc_ctx rows) = Inr (Some (shipped_ctx path rows))"
proof -
  let ?cv = "\<lparr>cv_socket_path = Some path, cv_db_path = Some ''/tmp/tas.db'', cv_log_path = None,
    cv_addr_families = Some (JObject [(TAS_ADDR_FAMILIES_INET_KEY, JBool True),
      (TAS_ADDR_FAMILIES_INET6_KEY, JBool False), (TAS_ADDR_FAMILIES_UNSPEC_KEY, JBool False)])\<rparr>"
  let ?c = "(calloc_ctx rows)\<lparr>table_offset := 10000, num_tables := 40, table_timeout := 3600, use_syslog := 1\<rparr>"
  have "c_string (snd (fread_conf ''{}'')) = Inr ''{}''"
    by (simp add: fread_conf_def c_string_def CONF_FILE_BUF_def cstr_padded zero_buf_def cstr_append)
       (simp add: cstr_def)
  moreover have "\<not> CONF_FILE_BUF \<le> Suc (Suc 0)" by (simp add: CONF_FILE_BUF_def)
  moreover have "foreach_member (shipped_conf path) (parse_config_member (conf_json path)) (calloc_ctx rows, no_conf)
      = Inr (?c, ?cv)"
    using assms(2) by (simp add: shipped_conf_def foreach_member_def parse_config_member_def conf_json_def
        ref_json_def int32_of_def no_conf_def cstr_idem)
  moreover have "finish_config (ok_start now) ?c ?cv = Inr (Some (shipped_ctx path rows))"
    using assms(1) by (simp add: finish_config_def shipped_families accept_tables_def size_defs
        calloc_ctx_def memcpy_zero_buf configure_rt_tables_fresh_maps ok_start_def configure_table_db_def
        table_allocator_server_sqlite_create_db_def Let_def)
      (simp add: shipped_ctx_def calloc_ctx_def buf_def size_defs)
  ultimately show ?thesis
    by (simp add: parse_config_def ok_start_def fread_conf_def conf_json_def)
qed

theorem parse_config_accepts_witness:
  "configured [] (shipped_ctx ''tas_socket'' []) \<and> geometry (shipped_ctx ''tas_socket'' [])"
proof -
  have "unat (num_tables (shipped_ctx ''tas_socket'' [])) \<le> 2 ^ 32 - 32"
    by (simp add: shipped_ctx_def calloc_ctx_def)
  with parse_config_accepts [OF shipped_parse [of "''tas_socket''" 0 "[]"]] show ?thesis by simp
qed

lemma shipped_facts:
  "num_tables (shipped_ctx path rows) = 40" "table_offset (shipped_ctx path rows) = 10000"
  "rt_rows (shipped_ctx path rows) = rows" "geometry (shipped_ctx path rows)"
  "capacity (shipped_ctx path rows) = 64"
  "socket_path (shipped_ctx path rows) = path @ zero_buf (106 - length path)"
  "family_map (shipped_ctx path rows) AF_INET \<noteq> None"
  "db_path (shipped_ctx path rows) = buf 256 ''/tmp/tas.db''"
proof -
  show g: "geometry (shipped_ctx path rows)"
    unfolding shipped_ctx_def by (rule fresh_maps_geometry) (simp_all add: calloc_ctx_def)
  show "capacity (shipped_ctx path rows) = 64"
    using capacity_eq [OF g] by (simp add: shipped_ctx_def calloc_ctx_def)
  show "family_map (shipped_ctx path rows) AF_INET \<noteq> None"
    by (simp add: shipped_ctx_def fresh_maps_def family_map_def Let_def mask_defs)
qed (simp_all add: shipped_ctx_def calloc_ctx_def)

lemma shipped_row: "row_ok (shipped_ctx path rows) (row_of eth1_req 10000 500)"
  using shipped_facts [of path rows]
  by (simp add: row_ok_def valid_family_def row_id_def table_id_def)

theorem startup_safe_witness:
  "\<exists>ctx'. server_main (conf_json ''tas_socket'') (\<lambda>_. ok_start 100) (True, True) [(CHR ''c'', ''tas.json'')]
      [row_of eth1_req 10000 500] = Inr ctx' \<and> srv_safe (100, ctx') \<and> synced ctx'"
proof -
  let ?rows = "[row_of eth1_req 10000 500]"
  let ?s = "shipped_ctx ''tas_socket'' ?rows"
  let ?es = "[Udp_init Unix_socket, Timer_init Unix_socket_timeout, Timer_start Unix_socket_timeout 0 0,
    Timer_init Dead_leases_timeout, Timer_start Dead_leases_timeout DEAD_LEASE_TIMEOUT DEAD_LEASE_TIMEOUT]"
  have alive: "100 < LeaseExpires (row_of eth1_req 10000 500)" by (simp add: c_int_def sint_u32_small)
  have parse: "parse_config (conf_json ''tas_socket'') (ok_start 100) (calloc_ctx ?rows) = Inr (Some ?s)"
    by (rule shipped_parse) simp_all
  have set: "set_table (emit ?es ?s) (row_fam (row_of eth1_req 10000 500)) (row_tbl (row_of eth1_req 10000 500))
      = Inr (toggle_id (emit ?es ?s) (row_fam (row_of eth1_req 10000 500)) (row_id (emit ?es ?s) (row_of eth1_req 10000 500)))"
    using set_table_row [of "emit ?es ?s" "row_of eth1_req 10000 500"] shipped_facts(4) shipped_row
    by (simp only: emit_frame)
  let ?c = "toggle_id (emit ?es ?s) (row_fam (row_of eth1_req 10000 500)) (row_id (emit ?es ?s) (row_of eth1_req 10000 500))"
  have clk: "clock_ok 100" by (simp add: clock_ok_def)
  have build: "table_allocator_sqlite_build_table_map 0 sql_ok (emit ?es ?s) 100 populate_table_map_cb = Inr (True, ?c)"
    using build_map_alive [OF refl clk, of "emit ?es ?s"] alive set shipped_facts(3) by simp
  have "db_path (toggle_id c f i) = db_path c" "db_path (emit es c) = db_path c" for es c f i
    by (simp_all add: toggle_id_def update_family_map_def emit_def split: option.split)
  then have "NUL \<in> set (socket_path ?c)" "NUL \<in> set (db_path ?c)"
    using shipped_facts(6,8) by (simp_all add: zero_buf_def buf_def)
  then have log: "log_started ?c = Inr ?c" by (simp add: log_started_iff)
  have run: "server_main (conf_json ''tas_socket'') (\<lambda>_. ok_start 100) (True, True) [(CHR ''c'', ''tas.json'')] ?rows = Inr ?c"
    using parse build log by (simp add: server_main_def ok_start_def ta_allocator_libuv_helpers_configure_unix_handle_def Let_def emit_def)
  have "\<forall>r \<in> set ?rows. row_ok ?c r" using shipped_row by simp
  moreover have "unat (num_tables ?c) \<le> 2 ^ 32 - 32" "32 \<le> num_tables ?c" using shipped_facts(1) by simp_all
  moreover have "map_prepare_rc (ok_start 100) = 0" "map_rc (ok_start 100) = sql_ok" "start_clock (ok_start 100) = Some 100"
    by (simp_all add: ok_start_def)
  ultimately show ?thesis
    using startup_safe [OF run _ clk] run alive by (simp add: primary_key_def one_lease_def)
qed

theorem rebuild_of_disabled_family_faults_witness:
  "table_allocator_sqlite_build_table_map 0 sql_ok
     (example_ctx\<lparr>rt_rows := [row_of (eth1_req\<lparr>req_family := AF_INET6\<rparr>) 10000 500]\<rparr>) (word_of_int 100) populate_table_map_cb
   = Inl Null_pointer"
proof -
  let ?r = "row_of (eth1_req\<lparr>req_family := AF_INET6\<rparr>) 10000 500"
  have "row_fam ?r = AF_INET6" "row_tbl ?r = 10000" by (simp_all add: row_fam_def row_tbl_def)
  then show ?thesis
    using rebuild_of_disabled_family_faults [of "example_ctx\<lparr>rt_rows := [?r]\<rparr>" "[]" ?r "[]" 100]
    by (simp add: c_int_def sint_u32_small clock_ok_def element_index_def)
qed

end
