(* ===== verification/Server_Leaks.thy ===== *)
theory Server_Leaks
  imports Server_Sockets
begin

text \<open>
  Tables that are lost: taken in the map and recorded for nobody. A running server never gives such
  a table to a client, and never frees it; only a restart does, which rebuilds the map from the
  rows. A release of a lease whose bit has been freed already makes one.
\<close>

definition leaked :: "tas_ctx \<Rightarrow> u8 \<Rightarrow> nat \<Rightarrow> bool" where
  "leaked ctx f i \<longleftrightarrow> \<not> ctx_free ctx f i \<and> \<not> holds ctx f i"

text \<open>What a step leaves as it was: the offsets of the rows and the tables that are lost.\<close>

definition keeps_leaks :: "tas_ctx \<Rightarrow> tas_ctx \<Rightarrow> bool" where
  "keeps_leaks ctx ctx' \<longleftrightarrow> row_id ctx' = row_id ctx
     \<and> (\<forall>f i. valid_family f \<longrightarrow> leaked ctx f i \<longrightarrow> leaked ctx' f i)"

lemma keeps_leaks_refl [simp]: "keeps_leaks ctx ctx"
  by (simp add: keeps_leaks_def)

lemma keeps_leaks_trans: "keeps_leaks a b \<Longrightarrow> keeps_leaks b c \<Longrightarrow> keeps_leaks a c"
  by (simp add: keeps_leaks_def)

lemma keeps_leaks_frame [simp]:
  "keeps_leaks ctx (emit es ctx)" "keeps_leaks ctx (ctx\<lparr>req := rq\<rparr>)" "keeps_leaks ctx (receive_into data ctx)"
  by (simp_all add: keeps_leaks_def leaked_def holds_def receive_into_def unix_socket_alloc_cb_def ctx_free_def
      family_map_def row_id_def table_id_def fun_eq_iff)

text \<open>A table that is free or held is another one.\<close>

lemma keeps_leaks_toggle:
  assumes "geometry ctx" and "family_map ctx f \<noteq> None" and "valid_family f" and "i < capacity ctx"
    and "holds ctx f i \<or> ctx_free ctx f i"
  shows "keeps_leaks ctx (toggle_id ctx f i)"
  using assms(5) valid_same_map [OF assms(3)]
  by (auto simp: keeps_leaks_def leaked_def ctx_free_toggle [OF assms(1,2,4)] holds_def row_id_def fun_eq_iff)

lemma row_in_map:
  assumes "srv_wf ctx" and "r \<in> set (rt_rows ctx)"
  shows "geometry ctx" "family_map ctx (row_fam r) \<noteq> None" "valid_family (row_fam r)" "row_id ctx r < capacity ctx"
    "holds ctx (row_fam r) (row_id ctx r)"
  using assms by (auto simp: srv_wf_def row_ok_def holds_def)

lemma keeps_leaks_rows:
  assumes "\<And>f i. holds (ctx\<lparr>rt_rows := rows\<rparr>) f i \<Longrightarrow> holds ctx f i \<or> ctx_free ctx f i"
  shows "keeps_leaks ctx (ctx\<lparr>rt_rows := rows\<rparr>)"
proof -
  have "row_id (ctx\<lparr>rt_rows := rows\<rparr>) = row_id ctx" "ctx_free (ctx\<lparr>rt_rows := rows\<rparr>) = ctx_free ctx"
    by simp_all
  with assms show ?thesis unfolding keeps_leaks_def leaked_def by metis
qed

lemma holds_update: "holds (ctx\<lparr>rt_rows := update_rt_table e a t (rt_rows ctx)\<rparr>) f i = holds ctx f i"
  unfolding holds_def by (simp, subst bex_update_rt_table) (simp_all add: row_fam_def row_id_def row_tbl_def)

lemma keeps_leaks_update: "keeps_leaks ctx (ctx\<lparr>rt_rows := update_rt_table e a t (rt_rows ctx)\<rparr>)"
  by (rule keeps_leaks_rows) (simp only: holds_update simp_thms)

section \<open>The handlers\<close>

lemma handle_req_keeps_leaks:
  assumes "srv_wf ctx" and "table_allocator_server_clients_handle_req env ctx rq = Inr (res, ctx')"
  shows "keeps_leaks ctx ctx'"
  using assms(1)
proof (cases rule: handle_req_cases [where env = env and rq = rq])
  case refused
  with assms(2) show ?thesis by simp
next
  case (again now r ctx1 ctx2 ok)
  note row = row_in_map [OF assms(1) again(3)]
  have ctx1: "keeps_leaks ctx ctx1"
    using keeps_leaks_toggle [OF row(1-4) disjI1 [OF row(5)]] by (simp add: again(7))
  have "keeps_leaks ctx1 ctx2"
    using update_lease_cases [OF again(9)] keeps_leaks_update by (cases ok) simp_all
  from keeps_leaks_trans [OF ctx1 this] assms(2) again(10) show ?thesis by simp
next
  case (full now ctx1)
  have "geometry ctx" "family_map ctx (req_family rq) \<noteq> None" "valid_family (req_family rq)"
    using assms(1) served_valid [OF full(1)] by (simp_all add: srv_wf_def)
  with full(5) keeps_leaks_toggle have "keeps_leaks ctx ctx1" by auto
  with assms(2) full(6) show ?thesis by simp
next
  case (fresh now i t ctx1 ctx2 ok)
  have fam: "geometry ctx" "family_map ctx (req_family rq) \<noteq> None" "valid_family (req_family rq)"
    using assms(1) served_valid [OF fresh(1)] by (simp_all add: srv_wf_def)
  have free: "ctx_free ctx1 f j = (ctx_free ctx f j \<and> \<not> (same_map (req_family rq) f \<and> j = i))" for f j
    using ctx_free_toggle [OF fam(1,2) fresh(5), of f j] fresh(6,11) same_map_free by auto
  have "keeps_leaks ctx (toggle_id ctx1 (req_family rq) i)"
    using fam fresh(5,6,11) valid_same_map [OF fam(3)]
    by (auto simp: keeps_leaks_def leaked_def ctx_free_toggle holds_def row_id_def fun_eq_iff)
  moreover have "keeps_leaks ctx ctx2"
    using insert_table_cases [OF fresh(12)] free fresh(6,8,11) valid_same_map [OF fam(3)]
    by (auto simp: keeps_leaks_def leaked_def holds_def set_insert_rt_table row_id_def row_fam_def row_tbl_def fun_eq_iff)
  ultimately show ?thesis using assms(2) fresh(13) by (auto split: if_splits)
qed

lemma handle_release_keeps_leaks:
  assumes "srv_wf ctx"
    and "table_allocator_server_clients_handle_release sel_rc del_rc ctx rq = Inr (ok, ctx')"
  shows "keeps_leaks ctx ctx'"
  using assms(1)
proof (cases rule: handle_release_cases [where sel_rc = sel_rc and del_rc = del_rc and rq = rq])
  case (released r ctx1)
  obtain a b c where key: "client_key rq = (a, b, c)" by (metis prod_cases3)
  note row = row_in_map [OF assms(1) released(1)]
  let ?c = "toggle_id ctx1 (row_fam r) (row_id ctx r)"
  have ctx1: "ctx1 = ctx\<lparr>rt_rows := delete_rt_table a b c (rt_rows ctx)\<rparr>" using released(5) key by simp
  have ids: "row_id ?c = row_id ctx" by (simp add: ctx1 row_id_def fun_eq_iff)
  have "set (rt_rows ?c) \<subseteq> set (rt_rows ctx)" by (auto simp: ctx1 set_delete_rt_table)
  then have held: "holds ctx f i" if "holds ?c f i" for f i
    using that unfolding holds_def ids by blast
  have free: "ctx_free ?c f i = ctx_free ctx f i" if "valid_family f" "leaked ctx f i" for f i
  proof -
    have "\<not> (same_map (row_fam r) f \<and> i = row_id ctx r)"
      using that(2) row(5) valid_same_map [OF row(3) that(1)] by (auto simp: leaked_def)
    then show ?thesis using row(1,2,4) by (simp add: ctx1 ctx_free_toggle)
  qed
  have "keeps_leaks ctx ?c" using ids held free unfolding keeps_leaks_def leaked_def by blast
  then show ?thesis using released(6) assms(2) by simp
qed (use assms(2) in simp_all)

lemma sweep_keeps_leaks:
  assumes "srv_inv now ctx" and "clock_ok now" and "clk = None \<or> clk = Some now"
    and "table_allocator_server_clients_delete_dead_leases clk sel_rc del_rc ctx = Inr ctx'"
  shows "keeps_leaks ctx ctx'"
proof (cases "clk = None \<or> bind_rc sel_rc \<noteq> 0")
  case True
  then show ?thesis
    using assms(4) by (auto simp: table_allocator_server_clients_delete_dead_leases_def
        table_allocator_sqlite_delete_dead_leases_def split: option.splits)
next
  case False
  let ?dead = "deliver (row_limit sel_rc) (select_dead_leases now (rt_rows ctx))"
  from False have clk: "clk = Some now" "bind_rc sel_rc = 0" using assms(3) by auto
  let ?alive = "filter (\<lambda>r. \<not> LeaseExpires r \<le> now)"
  obtain c where c: "run_check_table release_dead_lease ?dead ctx = Inr c"
      "ctx' = c \<or> ctx' = c\<lparr>rt_rows := ?alive (rt_rows c)\<rparr>"
    using assms(4) clk
    by (auto simp: table_allocator_server_clients_delete_dead_leases_def clock_ok_sint [OF assms(2)]
        table_allocator_sqlite_delete_dead_leases_def delete_dead_leases_def res_simps split: if_splits)
  have dead: "\<exists>r \<in> set (rt_rows ctx). x = (RtTable r, AddrFamily r) \<and> LeaseExpires r \<le> now" if "x \<in> set ?dead" for x
    using that by (cases "row_limit sel_rc") (auto simp: select_dead_leases_def dest!: in_set_takeD)
  have same: "rt_rows c = rt_rows ctx" using run_release_dead [of now ctx ?dead, OF assms(1) dead] c(1) by fastforce
  have "row_id c = row_id ctx"
    using run_release_frees [OF assms(1) c(1) dead, of AF_INET] by (simp add: valid_family_def)
  then have "keeps_leaks ctx c"
    using run_release_frees [OF assms(1) c(1) dead] same by (auto simp: keeps_leaks_def leaked_def holds_def)
  moreover have "keeps_leaks c (c\<lparr>rt_rows := ?alive (rt_rows c)\<rparr>)"
    by (rule keeps_leaks_rows) (auto simp: holds_def row_id_def)
  ultimately show ?thesis using c(2) keeps_leaks_trans by blast
qed

text \<open>The release that makes a leak.\<close>

lemma released_lease_leaks:
  assumes "srv_wf ctx" and "one_lease (rt_rows ctx)" and "r \<in> set (rt_rows ctx)" and "client_of r = client_key rq"
    and "ctx_free ctx (row_fam r) (row_id ctx r)"
  shows "\<exists>ctx'. table_allocator_server_clients_handle_release sql_ok sql_ok ctx rq = Inr (True, ctx')
    \<and> leaked ctx' (row_fam r) (row_id ctx r) \<and> row_id ctx' = row_id ctx"
  using assms(1)
proof (cases rule: handle_release_cases [where sel_rc = sql_ok and del_rc = sql_ok and rq = rq])
  case absent
  have "leased_table (rt_rows ctx) (client_key rq) \<noteq> None" using assms(3,4) by (auto simp: leased_table_None)
  with absent show ?thesis by (simp add: get_table_0 [OF assms(1)])
next
  case failed
  then show ?thesis
    by (auto simp: table_allocator_server_clients_handle_release_def Let_def
        table_allocator_sqlite_remove_table_def res_simps split: if_splits)
next
  case (released q ctx1)
  obtain a b d where key: "client_key rq = (a, b, d)" by (metis prod_cases3)
  have q: "q = r"
    using assms(2-4) released(1,2) by (auto simp: one_lease_def distinct_map inj_on_def)
  have ctx1: "ctx1 = ctx\<lparr>rt_rows := delete_rt_table a b d (rt_rows ctx)\<rparr>" using released(5) key by simp
  note row = row_in_map [OF assms(1,3)]
  let ?c = "toggle_id ctx1 (row_fam q) (row_id ctx q)"
  have "\<not> holds ?c (row_fam r) (row_id ctx r)"
    using holds_delete [OF assms(1-3)] assms(4) by (simp add: ctx1 key)
  moreover have "\<not> ctx_free ?c (row_fam r) (row_id ctx r)"
    using ctx_free_toggle [of ctx1 "row_fam r" "row_id ctx r" "row_fam r" "row_id ctx r"] row assms(5)
    by (simp add: ctx1 q same_map_def)
  moreover have "row_id ?c = row_id ctx" by (simp add: ctx1 row_id_def fun_eq_iff)
  ultimately show ?thesis using released(6) by (simp add: leaked_def)
qed

section \<open>The running server\<close>

lemma reply_keeps_leaks:
  "unix_socket_reply jc env ctx sender answer = Inr ctx' \<Longrightarrow> keeps_leaks ctx ctx'"
  by (auto simp: unix_socket_reply_def res_simps split: option.splits prod.splits if_splits)

lemma recv_keeps_leaks:
  assumes "srv_inv now ctx" and "unix_socket_recv_cb jc env nread partial addr ctx = Inr ctx'"
  shows "keeps_leaks ctx ctx'"
proof (cases "nread \<le> 0 \<or> partial")
  case True
  then show ?thesis
    using assms(2) by (auto simp: unix_socket_recv_cb_def unix_socket_stop_recv_def split: if_split_asm)
next
  case False
  then obtain body parsed rq where p: "c_string (client_req_buffer ctx) = Inr body"
    "table_allocator_shared_json_parse_seq jc body zero_req = Inr (parsed, rq)"
    using assms(2) by (auto simp: unix_socket_recv_cb_def bindR_Inr_iff)
  obtain sender where addr: "addr = Some sender"
    using assms(2) False p by (cases addr) (auto simp: unix_socket_recv_cb_def Let_def)
  have rq: "ctx' = ctx\<lparr>req := rq\<rparr>
      \<or> (\<exists>res c. table_allocator_server_clients_handle_req (rcv_req env) (ctx\<lparr>req := rq\<rparr>) rq = Inr (res, c)
           \<and> keeps_leaks c ctx')
      \<or> (\<exists>ok c. table_allocator_server_clients_handle_release (rcv_sel env) (rcv_del env) (ctx\<lparr>req := rq\<rparr>) rq = Inr (ok, c)
           \<and> keeps_leaks c ctx')"
    using assms(2) False reply_keeps_leaks
    by (simp add: unix_socket_recv_cb_def p addr Let_def bindR_Inr_iff split: if_split_asm) blast+
  have wf: "srv_wf (ctx\<lparr>req := rq\<rparr>)"
  proof -
    have "srv_inv now (ctx\<lparr>req := rq\<rparr>)" using assms(1) by simp
    then show ?thesis by (simp only: srv_inv_def)
  qed
  from rq have "keeps_leaks (ctx\<lparr>req := rq\<rparr>) ctx'"
    using handle_req_keeps_leaks [OF wf] handle_release_keeps_leaks [OF wf] keeps_leaks_trans keeps_leaks_refl by blast
  then show ?thesis using keeps_leaks_trans keeps_leaks_frame(2) by blast
qed

lemma srv_step_keeps_leaks:
  assumes "srv_safe s" and "srv_admissible jc s e" and "srv_handle jc e s = Inr s'"
  shows "keeps_leaks (snd s) (snd s')"
proof -
  obtain now ctx now' ctx' where s: "s = (now, ctx)" "s' = (now', ctx')" by fastforce
  have inv: "srv_inv now ctx" "clock_ok now" "NUL \<in> set (socket_path ctx)"
    using assms(1) by (simp_all add: srv_safe_def s)
  have inv': "srv_inv now (receive_into data ctx)" for data
    using inv(1) by (simp add: receive_into_def unix_socket_alloc_cb_def)
  show ?thesis
  proof (cases e)
    case (Datagram env data addr)
    then have "keeps_leaks (receive_into data ctx) ctx'"
      using assms(3) recv_keeps_leaks [OF inv'] by (auto simp: s res_simps)
    then show ?thesis unfolding s snd_conv using keeps_leaks_trans keeps_leaks_frame(3) by blast
  next
    case (Socket_error env nread)
    then show ?thesis using assms(3) recv_keeps_leaks [OF inv(1)] by (auto simp: s res_simps)
  next
    case (Socket_timer env)
    then show ?thesis using assms(3) socket_timer_total [OF inv(3), of env] by (auto simp: s)
  next
    case (Sweep_timer clk sel_rc del_rc)
    then show ?thesis
      using assms(2,3) sweep_keeps_leaks [OF inv(1,2), of clk sel_rc del_rc] by (auto simp: s res_simps)
  qed (use assms(3) in \<open>auto simp: s unix_socket_handle_close_cb_def\<close>)
qed

lemma runs_keep_leaks:
  assumes "runs (srv_handle jc) (srv_admissible jc) s es t" and "srv_safe s"
  shows "keeps_leaks (snd s) (snd t)"
  using assms
proof (induction rule: runs.induct)
  case (event s es t e u)
  have "srv_safe t" using server.reached [OF event.hyps(1) event.prems] .
  then have "keeps_leaks (snd t) (snd u)" using event.hyps(2,3) by (rule srv_step_keeps_leaks)
  with event show ?case using keeps_leaks_trans by blast
qed simp

lemma released_safe:
  assumes "srv_safe (now, ctx)" and "table_allocator_server_clients_handle_release sel_rc del_rc ctx rq = Inr (ok, ctx')"
  shows "srv_safe (now, ctx')"
proof -
  have inv: "srv_inv now ctx" using assms(1) by (simp add: srv_safe_def)
  then have "same_io ctx ctx'" using handle_release_io assms(2) by (simp add: srv_inv_def)
  moreover have "srv_inv now ctx'" using handle_release_preserves [OF inv, of sel_rc del_rc rq] assms(2) by auto
  ultimately show ?thesis using assms(1) by (simp add: srv_safe_def same_io_def)
qed

section \<open>Properties\<close>

text \<open>C33: releasing a lease that has ended and whose bit the sweep has already freed (its
  \<open>DELETE\<close> failed, or the server has restarted and not swept yet) toggles the bit back: the
  table is taken and no row holds it. As long as the server runs, whatever requests, releases,
  sweeps and other events follow, this stays so: the table is neither freed nor given to anybody.\<close>

theorem release_of_freed_lease_leaks:
  assumes "srv_safe (now, ctx)" and "one_lease (rt_rows ctx)"
    and "r \<in> set (rt_rows ctx)" and "client_of r = client_key rq"
    and "ctx_free ctx (row_fam r) (row_id ctx r)"
  shows "\<exists>ctx'. table_allocator_server_clients_handle_release sql_ok sql_ok ctx rq = Inr (True, ctx')
    \<and> (\<forall>es now' ctx''. runs (srv_handle jc) (srv_admissible jc) (now, ctx') es (now', ctx'') \<longrightarrow>
         \<not> ctx_free ctx'' (row_fam r) (row_id ctx r)
         \<and> \<not> (\<exists>q \<in> set (rt_rows ctx''). row_fam q = row_fam r \<and> row_tbl q = row_tbl r))"
proof -
  have inv: "srv_inv now ctx" using assms(1) by (simp add: srv_safe_def)
  then have wf: "srv_wf ctx" by (simp add: srv_inv_def)
  obtain ctx' where rel: "table_allocator_server_clients_handle_release sql_ok sql_ok ctx rq = Inr (True, ctx')"
    and leak: "leaked ctx' (row_fam r) (row_id ctx r)" "row_id ctx' = row_id ctx"
    using released_lease_leaks [OF wf assms(2-5)] by blast
  have safe: "srv_safe (now, ctx')" using assms(1) rel by (rule released_safe)
  have "leaked u (row_fam r) (row_id ctx r) \<and> row_id u = row_id ctx"
    if "runs (srv_handle jc) (srv_admissible jc) (now, ctx') es (now', u)" for es now' u
    using runs_keep_leaks [OF that safe] leak row_in_map(3) [OF wf assms(3)] by (simp add: keeps_leaks_def)
  then show ?thesis
    using rel unfolding leaked_def holds_def by (metis row_id_def)
qed

section \<open>Witnesses\<close>

lemma freed_safe: "srv_safe (600, freed_ctx)"
proof -
  have "client_req_buffer freed_ctx = zero_buf CLIENT_REQ_BUFFER_SIZE" "socket_path freed_ctx = zero_buf TA_SHARED_MAX_ADDR_SIZE"
    by (simp_all add: freed_ctx_def example_ctx_def calloc_ctx_def)
  then show ?thesis
    by (simp add: srv_safe_def freed_inv clock_ok_def terminated_zero_buf size_defs) (simp add: zero_buf_def)
qed

theorem release_of_freed_lease_leaks_witness:
  "\<exists>ctx' u. table_allocator_server_clients_handle_release sql_ok sql_ok freed_ctx eth1_req = Inr (True, ctx')
    \<and> runs (srv_handle ref_json) (srv_admissible ref_json) (600, ctx') ([] @ [Sweep_timer (Some 600) sql_ok sql_ok]) u
    \<and> \<not> ctx_free (snd u) AF_INET 0"
proof -
  let ?r = "row_of eth1_req 10000 500" and ?e = "Sweep_timer (Some 600) sql_ok sql_ok"
  have h: "?r \<in> set (rt_rows freed_ctx)" "client_of ?r = client_key eth1_req" "one_lease (rt_rows freed_ctx)"
    "ctx_free freed_ctx (row_fam ?r) (row_id freed_ctx ?r)"
    by (simp_all add: one_lease_def)
  obtain ctx' where rel: "table_allocator_server_clients_handle_release sql_ok sql_ok freed_ctx eth1_req = Inr (True, ctx')"
    and leak: "\<And>es now' u. runs (srv_handle ref_json) (srv_admissible ref_json) (600, ctx') es (now', u) \<Longrightarrow> \<not> ctx_free u AF_INET 0"
    using release_of_freed_lease_leaks [OF freed_safe h(3,1,2,4), of ref_json] by auto
  have "srv_admissible ref_json (600, ctx') ?e" by simp
  then obtain u where u: "runs (srv_handle ref_json) (srv_admissible ref_json) (600, ctx') ([] @ [?e]) u"
    using server.not_stuck [OF runs.start released_safe [OF freed_safe rel]] by blast
  then have "\<not> ctx_free (snd u) AF_INET 0" using leak [of "[] @ [?e]" "fst u" "snd u"] by simp
  with rel u show ?thesis by blast
qed

end
