(* ===== verification/Client_Rules.thy ===== *)
theory Client_Rules
  imports Server_State
begin

text \<open>
  The client's data (\<open>struct tac_address\<close> and \<open>struct tac_ctx\<close> of
  \<^verbatim>\<open>table_allocator_client.h\<close>) and its routing rules
  (\<^verbatim>\<open>table_allocator_client_netlink.c\<close>): the three rules of a lease, their messages, their
  retries, and the recognition of the netlink messages that end a lease. The \<open>uint8_t\<close> flags,
  only ever 0 or 1, are booleans; the netlink socket is whether the pointer is set; the two views
  of the socket address are two fields.
\<close>

record tac_address =
  ta_addr4 :: u32
  ta_addr6 :: "u32 list"
  ta_ifidx :: u32
  ta_rt_table :: u32
  ta_lease_expires :: u32
  subnet_prefix_len :: u8
  ta_family :: u8
  rules_added :: bool
  ta_ifname :: string
  ta_address_str :: string
  ta_tag :: string

record tac_ctx =
  rt_mnl_socket :: bool
  tac_addr :: tac_address
  destination :: string
  rcv_buf :: string
  tac_use_syslog :: bool
  tac_cmd :: u8
  daemonize :: bool
  daemonized :: bool
  closing :: bool
  num_failed :: u8
  tac_trace :: "effect list"

definition cemit :: "effect list \<Rightarrow> tac_ctx \<Rightarrow> tac_ctx" where
  "cemit es ctx = ctx\<lparr>tac_trace := tac_trace ctx @ es\<rparr>"

lemma cemit_simps [simp]:
  "rt_mnl_socket (cemit es ctx) = rt_mnl_socket ctx" "tac_addr (cemit es ctx) = tac_addr ctx"
  "destination (cemit es ctx) = destination ctx" "rcv_buf (cemit es ctx) = rcv_buf ctx"
  "tac_cmd (cemit es ctx) = tac_cmd ctx" "daemonize (cemit es ctx) = daemonize ctx"
  "daemonized (cemit es ctx) = daemonized ctx" "closing (cemit es ctx) = closing ctx"
  "num_failed (cemit es ctx) = num_failed ctx" "tac_trace (cemit es ctx) = tac_trace ctx @ es"
  "cemit es (cemit ds ctx) = cemit (ds @ es) ctx" "cemit [] ctx = ctx"
  by (simp_all add: cemit_def)

section \<open>Constants\<close>

definition RTM_NEWRULE :: u32 where "RTM_NEWRULE = 32"
definition RTM_DELRULE :: u32 where "RTM_DELRULE = 33"
definition NLM_F_REQUEST :: u32 where "NLM_F_REQUEST = 1"
definition NLM_F_EXCL :: u32 where "NLM_F_EXCL = 0x200"
definition NLM_F_CREATE :: u32 where "NLM_F_CREATE = 0x400"
definition FRA_DST :: u8 where "FRA_DST = 1"
definition FRA_SRC :: u8 where "FRA_SRC = 2"
definition ADDR_RULE_PRIO :: u32 where "ADDR_RULE_PRIO = 10000"
definition NW_RULE_PRIO :: u32 where "NW_RULE_PRIO = 20000"
definition DEF_RULE_PRIO :: u32 where "DEF_RULE_PRIO = 91000"
definition TAC_NETLINK_TIMEOUT_MS :: nat where "TAC_NETLINK_TIMEOUT_MS = 1000"
definition IFA_ADDRESS :: nat where "IFA_ADDRESS = 1"
definition IFA_LOCAL :: nat where "IFA_LOCAL = 2"
definition IFA_MAX :: nat where "IFA_MAX = 11"

lemmas nl_defs = RTM_NEWRULE_def RTM_DELRULE_def NLM_F_REQUEST_def NLM_F_EXCL_def NLM_F_CREATE_def
  FRA_DST_def FRA_SRC_def ADDR_RULE_PRIO_def NW_RULE_PRIO_def DEF_RULE_PRIO_def
lemmas ifa_defs = IFA_ADDRESS_def IFA_LOCAL_def IFA_MAX_def

section \<open>Rule messages\<close>

text \<open>The message; \<open>nlmsg_type\<close>, \<open>nlmsg_flags\<close> and \<open>rtm_table\<close> are narrower than their values.\<close>

definition rule_message :: "tac_address \<Rightarrow> u32 \<Rightarrow> u32 \<Rightarrow> u8 \<Rightarrow> u8 \<Rightarrow> u32 \<Rightarrow> string option \<Rightarrow> nl_rule" where
  "rule_message address msg_type flags prefix_len dir prio ifname =
     (let src_len = (if dir = FRA_SRC then prefix_len else 0);
          dst_len = (if dir = FRA_SRC then 0 else if dir = FRA_DST then prefix_len else 0) in
      \<lparr>nlmsg_type = ucast msg_type, nlmsg_flags = ucast (NLM_F_REQUEST OR flags),
       rtm_family = ta_family address, rtm_src_len = src_len, rtm_dst_len = dst_len,
       rtm_table = ucast (ta_rt_table address),
       rtm_attrs = [FRA_PRIORITY prio, FRA_TABLE (ta_rt_table address)]
         @ (if src_len \<noteq> 0 \<or> dst_len \<noteq> 0
            then [if ta_family address = AF_INET then FRA_addr4 (unat dir) (ta_addr4 address)
                  else FRA_addr6 (unat dir) (ta_addr6 address)]
            else [])
         @ (case ifname of Some i \<Rightarrow> [FRA_IFNAME i] | None \<Rightarrow> [])\<rparr>)"

text \<open>\<open>mnl_socket_sendto\<close> takes a socket; its answer is the argument \<open>rc\<close>.\<close>

definition table_allocator_client_netlink_modify_rule ::
  "int \<Rightarrow> tac_ctx \<Rightarrow> u32 \<Rightarrow> u32 \<Rightarrow> u8 \<Rightarrow> u8 \<Rightarrow> u32 \<Rightarrow> string option \<Rightarrow> (int \<times> tac_ctx) res" where
  "table_allocator_client_netlink_modify_rule rc ctx msg_type flags prefix_len dir prio ifname =
     (if rt_mnl_socket ctx
      then Inr (rc, cemit [Rule_request (rule_message (tac_addr ctx) msg_type flags prefix_len dir prio ifname)] ctx)
      else Inl Null_pointer)"

definition rule_failed :: "u32 \<Rightarrow> tac_ctx \<Rightarrow> tac_ctx" where
  "rule_failed msg_type ctx =
     (if msg_type = RTM_NEWRULE
      then cemit [Timer_start Netlink_timeout TAC_NETLINK_TIMEOUT_MS 0] ctx else ctx)"

text \<open>\<open>rcs i\<close> is the answer to the \<open>i\<close>-th message of the call.\<close>

definition table_allocator_client_netlink_update_rules ::
  "(nat \<Rightarrow> int) \<Rightarrow> u32 \<Rightarrow> tac_ctx \<Rightarrow> tac_ctx res" where
  "table_allocator_client_netlink_update_rules rcs msg_type ctx =
     (if msg_type = RTM_NEWRULE \<and> rules_added (tac_addr ctx) then Inr ctx
      else bindR (table_allocator_client_netlink_modify_rule (rcs 0) ctx msg_type
                    (NLM_F_CREATE OR NLM_F_EXCL) 32 FRA_SRC ADDR_RULE_PRIO None) (\<lambda>(retval, ctx).
        if retval < 0 then Inr (rule_failed msg_type ctx)
        else bindR (table_allocator_client_netlink_modify_rule (rcs 1) ctx msg_type
                      (NLM_F_CREATE OR NLM_F_EXCL) (subnet_prefix_len (tac_addr ctx)) FRA_DST
                      NW_RULE_PRIO None) (\<lambda>(retval, ctx).
          if retval < 0 then Inr (rule_failed msg_type ctx)
          else bindR (table_allocator_client_netlink_modify_rule (rcs 2) ctx msg_type
                        (NLM_F_CREATE OR NLM_F_EXCL) 0 FRA_DST DEF_RULE_PRIO (Some ''lo'')) (\<lambda>(retval, ctx).
            if retval < 0 then Inr (rule_failed msg_type ctx)
            else Inr (ctx\<lparr>tac_addr := (tac_addr ctx)\<lparr>rules_added := True\<rparr>\<rparr>)))))"

definition table_allocator_client_netlink_timeout_cb :: "(nat \<Rightarrow> int) \<Rightarrow> tac_ctx \<Rightarrow> tac_ctx res" where
  "table_allocator_client_netlink_timeout_cb rcs ctx =
     table_allocator_client_netlink_update_rules rcs RTM_NEWRULE ctx"

section \<open>Netlink messages\<close>

text \<open>
  An attribute is its type and its payload as words; \<open>mnl_attr_parse\<close> hands them to
  \<open>parse_nlattr\<close> in order. Reading past the payload is out of bounds.
\<close>

type_synonym nlattrs = "(nat \<times> u32 list) list"

definition table_allocator_client_netlink_parse_nlattr ::
  "nat \<Rightarrow> nat \<times> u32 list \<Rightarrow> (nat \<rightharpoonup> u32 list) \<Rightarrow> (nat \<rightharpoonup> u32 list)" where
  "table_allocator_client_netlink_parse_nlattr limit attr tb =
     (case attr of (type, payload) \<Rightarrow> if limit < type then tb else tb(type \<mapsto> payload))"

definition read_words :: "nat \<Rightarrow> u32 list \<Rightarrow> u32 list res" where
  "read_words n payload = (if n \<le> length payload then Inr (take n payload) else Inl Out_of_bounds)"

record ifaddrmsg =
  ifa_family :: u8
  ifa_prefixlen :: u8
  ifa_index :: u32
  ifa_attrs :: nlattrs
  ifa_attrs_ok :: bool

datatype nlmsg =
    Dellink u32             \<comment> \<open>\<open>RTM_DELLINK\<close> with its \<open>ifi_index\<close>\<close>
  | Deladdr ifaddrmsg       \<comment> \<open>\<open>RTM_DELADDR\<close>\<close>
  | Other_nlmsg

definition table_allocator_client_netlink_handle_dellink :: "tac_ctx \<Rightarrow> u32 \<Rightarrow> bool" where
  "table_allocator_client_netlink_handle_dellink ctx ifi_index = (ifi_index = ta_ifidx (tac_addr ctx))"

fun table_allocator_client_netlink_cmp_ip6addr :: "u32 list \<Rightarrow> u32 list \<Rightarrow> bool" where
  "table_allocator_client_netlink_cmp_ip6addr [a0, a1, a2, a3] [b0, b1, b2, b3] =
     (a0 = b0 \<and> a1 = b1 \<and> a2 = b2 \<and> a3 = b3)"
| "table_allocator_client_netlink_cmp_ip6addr _ _ = False"

definition table_allocator_client_netlink_handle_deladdr :: "tac_ctx \<Rightarrow> ifaddrmsg \<Rightarrow> bool res" where
  "table_allocator_client_netlink_handle_deladdr ctx ifa_msg =
     (let address = tac_addr ctx;
          tb = fold (table_allocator_client_netlink_parse_nlattr IFA_MAX) (ifa_attrs ifa_msg) Map.empty in
      if \<not> ifa_attrs_ok ifa_msg then Inr False
      else if ifa_index ifa_msg \<noteq> ta_ifidx address \<or> ifa_family ifa_msg \<noteq> ta_family address
              \<or> ifa_prefixlen ifa_msg \<noteq> subnet_prefix_len address then Inr False
      else case (ifa_family ifa_msg = AF_INET, tb IFA_LOCAL) of
        (True, Some payload) \<Rightarrow>
          bindR (read_words 1 payload) (\<lambda>ws. Inr (ws = [ta_addr4 address]))
      | _ \<Rightarrow>
          (case (ifa_family ifa_msg = AF_INET6, tb IFA_ADDRESS) of
             (True, Some payload) \<Rightarrow>
               bindR (read_words 4 payload) (\<lambda>ws.
                 Inr (table_allocator_client_netlink_cmp_ip6addr (ta_addr6 address) ws))
           | _ \<Rightarrow> Inr True))"

section \<open>Set-up\<close>

record netlink_env =
  nl_open :: bool
  nl_bind :: int
  nl_timer_init :: int
  nl_udp_init :: int
  nl_fd :: int
  nl_udp_open :: int
  nl_recv_start :: int

text \<open>The pointer is stored before the handles are set up, and kept when they fail.\<close>

definition table_allocator_client_netlink_configure :: "netlink_env \<Rightarrow> tac_ctx \<Rightarrow> bool \<times> tac_ctx" where
  "table_allocator_client_netlink_configure env ctx =
     (if \<not> nl_open env then (False, ctx)
      else if nl_bind env < 0 then (False, cemit [Mnl_close] ctx)
      else let ctx = ctx\<lparr>rt_mnl_socket := True\<rparr> in
        if nl_timer_init env \<noteq> 0 then (False, cemit [Mnl_close] ctx)
        else let ctx = cemit [Timer_init Netlink_timeout] ctx in
          if nl_udp_init env \<noteq> 0 then (False, cemit [Mnl_close] ctx)
          else let ctx = cemit [Udp_init Netlink_socket] ctx in
            if nl_udp_open env \<noteq> 0 then (False, cemit [Mnl_close] ctx)
            else let ctx = cemit [Udp_open Netlink_socket (nl_fd env)] ctx in
              if nl_recv_start env \<noteq> 0 then (False, cemit [Mnl_close] ctx)
              else (True, cemit [Udp_recv_start Netlink_socket] ctx))"

definition table_allocator_client_netlink_stop :: "tac_ctx \<Rightarrow> tac_ctx" where
  "table_allocator_client_netlink_stop = cemit [Udp_recv_stop Netlink_socket]"

section \<open>Lemmas\<close>

text \<open>The three rules of a lease: to look up its table for packets from the address, for packets
  to its network, and, last, for everything the host itself sends.\<close>

definition lease_rules :: "tac_address \<Rightarrow> u32 \<Rightarrow> nl_rule list" where
  "lease_rules a msg_type =
     [rule_message a msg_type (NLM_F_CREATE OR NLM_F_EXCL) 32 FRA_SRC ADDR_RULE_PRIO None,
      rule_message a msg_type (NLM_F_CREATE OR NLM_F_EXCL) (subnet_prefix_len a) FRA_DST NW_RULE_PRIO None,
      rule_message a msg_type (NLM_F_CREATE OR NLM_F_EXCL) 0 FRA_DST DEF_RULE_PRIO (Some ''lo'')]"

text \<open>How many of the three messages are sent: up to the first that fails.\<close>

definition rules_sent :: "(nat \<Rightarrow> int) \<Rightarrow> nat" where
  "rules_sent rcs = (if rcs 0 < 0 then 1 else if rcs 1 < 0 then 2 else 3)"

definition rules_ok :: "(nat \<Rightarrow> int) \<Rightarrow> bool" where
  "rules_ok rcs \<longleftrightarrow> (\<forall>i < 3. 0 \<le> rcs i)"

lemma rules_ok_iff: "rules_ok rcs = (0 \<le> rcs 0 \<and> 0 \<le> rcs 1 \<and> 0 \<le> rcs 2)"
  by (auto simp: rules_ok_def numeral_3_eq_3 numeral_2_eq_2 less_Suc_eq)

lemma update_rules_eq:
  assumes "rt_mnl_socket ctx" and "\<not> (msg_type = RTM_NEWRULE \<and> rules_added (tac_addr ctx))"
  shows "table_allocator_client_netlink_update_rules rcs msg_type ctx = Inr
    ((if rules_ok rcs then (\<lambda>c. c\<lparr>tac_addr := (tac_addr c)\<lparr>rules_added := True\<rparr>\<rparr>) else rule_failed msg_type)
       (cemit (map Rule_request (take (rules_sent rcs) (lease_rules (tac_addr ctx) msg_type))) ctx))"
  using assms(1)
  by (simp add: table_allocator_client_netlink_update_rules_def
      table_allocator_client_netlink_modify_rule_def lease_rules_def rules_sent_def rules_ok_iff
      if_not_P [OF assms(2)] numeral_3_eq_3)

lemma update_rules_total:
  assumes "rt_mnl_socket ctx"
  shows "\<exists>a es. table_allocator_client_netlink_update_rules rcs msg_type ctx =
    Inr (cemit es (ctx\<lparr>tac_addr := (tac_addr ctx)\<lparr>rules_added := a\<rparr>\<rparr>))"
proof (cases "msg_type = RTM_NEWRULE \<and> rules_added (tac_addr ctx)")
  case True
  then have "table_allocator_client_netlink_update_rules rcs msg_type ctx = Inr (cemit [] ctx)"
    by (simp add: table_allocator_client_netlink_update_rules_def)
  moreover have "ctx = ctx\<lparr>tac_addr := (tac_addr ctx)\<lparr>rules_added := rules_added (tac_addr ctx)\<rparr>\<rparr>" by simp
  ultimately show ?thesis by metis
next
  case False
  let ?ms = "map Rule_request (take (rules_sent rcs) (lease_rules (tac_addr ctx) msg_type))"
  show ?thesis
    unfolding update_rules_eq [OF assms False]
    by (rule exI [of _ "rules_ok rcs \<or> rules_added (tac_addr ctx)"],
        rule exI [of _ "?ms @ (if \<not> rules_ok rcs \<and> msg_type = RTM_NEWRULE
          then [Timer_start Netlink_timeout TAC_NETLINK_TIMEOUT_MS 0] else [])"])
      (auto simp: rule_failed_def cemit_def)
qed

text \<open>Rules of the same lease differ only in the type of the message.\<close>

definition with_type :: "u32 \<Rightarrow> nl_rule \<Rightarrow> nl_rule" where
  "with_type msg_type r = r\<lparr>nlmsg_type := ucast msg_type\<rparr>"

lemma lease_rules_type: "lease_rules a t' = map (with_type t') (lease_rules a t)"
  by (simp add: lease_rules_def with_type_def rule_message_def Let_def)

lemma last_attr:
  "(fold (table_allocator_client_netlink_parse_nlattr IFA_MAX) attrs tb) ty =
    (case filter (\<lambda>(t, p). t = ty \<and> t \<le> IFA_MAX) attrs of [] \<Rightarrow> tb ty | xs \<Rightarrow> Some (snd (last xs)))"
proof (induction attrs arbitrary: tb)
  case (Cons x attrs)
  obtain t p where x: "x = (t, p)" by fastforce
  have "table_allocator_client_netlink_parse_nlattr IFA_MAX x tb ty = (if t = ty \<and> t \<le> IFA_MAX then Some p else tb ty)"
    by (simp add: x table_allocator_client_netlink_parse_nlattr_def)
  then show ?case by (auto simp: Cons.IH x split: list.split)
qed simp

section \<open>Properties\<close>

text \<open>C17: adding the rules of a lease sends exactly three, at priorities 10000, 20000 and
  91000 (packets from the address, packets to its network, packets the host sends), all to the
  leased table; once added they are not added again, and deleting sends the same three rules.\<close>

theorem rules_added_once_and_deleted:
  assumes "rt_mnl_socket ctx" and "\<not> rules_added (tac_addr ctx)" and "rules_ok rcs" and "rules_ok rcs'"
  shows "\<exists>ctx1 ctx2 rules. table_allocator_client_netlink_update_rules rcs RTM_NEWRULE ctx = Inr ctx1
    \<and> tac_trace ctx1 = tac_trace ctx @ map Rule_request rules
    \<and> length rules = 3
    \<and> map (\<lambda>r. hd (rtm_attrs r)) rules = [FRA_PRIORITY 10000, FRA_PRIORITY 20000, FRA_PRIORITY 91000]
    \<and> (\<forall>r \<in> set rules. FRA_TABLE (ta_rt_table (tac_addr ctx)) \<in> set (rtm_attrs r) \<and> nlmsg_type r = 32)
    \<and> (\<forall>rcs. table_allocator_client_netlink_update_rules rcs RTM_NEWRULE ctx1 = Inr ctx1)
    \<and> table_allocator_client_netlink_update_rules rcs' RTM_DELRULE ctx1 = Inr ctx2
    \<and> tac_trace ctx2 = tac_trace ctx1 @ map (\<lambda>r. Rule_request (with_type RTM_DELRULE r)) rules"
proof -
  let ?rules = "lease_rules (tac_addr ctx) RTM_NEWRULE"
  define ctx1 where "ctx1 = (cemit (map Rule_request ?rules) ctx)\<lparr>tac_addr := (tac_addr ctx)\<lparr>rules_added := True\<rparr>\<rparr>"
  have sent: "take (rules_sent rcs) (lease_rules a t) = lease_rules a t"
    "take (rules_sent rcs') (lease_rules a t) = lease_rules a t" for a t
    using assms(3,4) by (simp_all add: rules_sent_def rules_ok_iff lease_rules_def numeral_3_eq_3)
  have add: "table_allocator_client_netlink_update_rules rcs RTM_NEWRULE ctx = Inr ctx1"
    using assms(2,3) sent by (subst update_rules_eq) (simp_all add: assms(1) ctx1_def)
  have again: "table_allocator_client_netlink_update_rules r RTM_NEWRULE ctx1 = Inr ctx1" for r
    by (simp add: table_allocator_client_netlink_update_rules_def ctx1_def)
  have "rt_mnl_socket ctx1" using assms(1) by (simp add: ctx1_def)
  from update_rules_eq [OF this, of RTM_DELRULE rcs'] assms(4) sent
  have del: "table_allocator_client_netlink_update_rules rcs' RTM_DELRULE ctx1 = Inr
      ((cemit (map Rule_request (lease_rules (tac_addr ctx1) RTM_DELRULE)) ctx1)\<lparr>tac_addr := (tac_addr ctx1)\<lparr>rules_added := True\<rparr>\<rparr>)"
    by (simp add: nl_defs)
  have "lease_rules (tac_addr ctx1) RTM_DELRULE = lease_rules (tac_addr ctx) RTM_DELRULE"
    by (simp add: ctx1_def lease_rules_def rule_message_def Let_def)
  also have "\<dots> = map (with_type RTM_DELRULE) ?rules" by (rule lease_rules_type)
  finally have same: "lease_rules (tac_addr ctx1) RTM_DELRULE = map (with_type RTM_DELRULE) ?rules" .
  have "length ?rules = 3" "map (\<lambda>r. hd (rtm_attrs r)) ?rules = [FRA_PRIORITY 10000, FRA_PRIORITY 20000, FRA_PRIORITY 91000]"
    "\<forall>r \<in> set ?rules. FRA_TABLE (ta_rt_table (tac_addr ctx)) \<in> set (rtm_attrs r) \<and> nlmsg_type r = 32"
    by (simp_all add: lease_rules_def rule_message_def nl_defs Let_def)
  moreover have "tac_trace ctx1 = tac_trace ctx @ map Rule_request ?rules" by (simp add: ctx1_def cemit_def)
  ultimately show ?thesis
    using add again del by (intro exI [of _ ctx1] exI conjI) (auto simp: same comp_def)
qed

text \<open>C18: when a rule cannot be sent the following ones are not tried; adding arms the retry
  timer (one second) and leaves the rules not added, so the timer's callback tries all of them
  again; deleting gives up.\<close>

theorem failed_rules_are_retried:
  assumes "rt_mnl_socket ctx" and "\<not> rules_added (tac_addr ctx)" and "\<not> rules_ok rcs"
  shows "\<exists>sent. table_allocator_client_netlink_update_rules rcs RTM_NEWRULE ctx =
        Inr (cemit (map Rule_request sent @ [Timer_start Netlink_timeout 1000 0]) ctx)
    \<and> table_allocator_client_netlink_timeout_cb rcs ctx = table_allocator_client_netlink_update_rules rcs RTM_NEWRULE ctx
    \<and> sent = take (length sent) (lease_rules (tac_addr ctx) RTM_NEWRULE)
    \<and> 0 < length sent \<and> length sent \<le> 3 \<and> rcs (length sent - 1) < 0 \<and> (\<forall>i < length sent - 1. 0 \<le> rcs i)
    \<and> table_allocator_client_netlink_update_rules rcs RTM_DELRULE ctx
        = Inr (cemit (map (\<lambda>r. Rule_request (with_type RTM_DELRULE r)) sent) ctx)"
proof -
  let ?sent = "take (rules_sent rcs) (lease_rules (tac_addr ctx) RTM_NEWRULE)"
  have len: "length ?sent = rules_sent rcs" by (simp add: lease_rules_def rules_sent_def)
  have "table_allocator_client_netlink_update_rules rcs RTM_NEWRULE ctx =
      Inr (cemit (map Rule_request ?sent @ [Timer_start Netlink_timeout 1000 0]) ctx)"
    using assms by (subst update_rules_eq) (simp_all add: rule_failed_def TAC_NETLINK_TIMEOUT_MS_def)
  moreover have "table_allocator_client_netlink_update_rules rcs RTM_DELRULE ctx
      = Inr (cemit (map (\<lambda>r. Rule_request (with_type RTM_DELRULE r)) ?sent) ctx)"
    using assms(1,3) lease_rules_type [of "tac_addr ctx" RTM_DELRULE RTM_NEWRULE]
    by (subst update_rules_eq) (simp_all add: rule_failed_def nl_defs take_map comp_def)
  moreover have "0 < rules_sent rcs \<and> rules_sent rcs \<le> 3 \<and> rcs (rules_sent rcs - 1) < 0 \<and> (\<forall>i < rules_sent rcs - 1. 0 \<le> rcs i)"
    using assms(3) by (auto simp: rules_sent_def rules_ok_iff less_Suc_eq numeral_2_eq_2)
  ultimately show ?thesis
    using len by (intro exI [of _ ?sent]) (auto simp: table_allocator_client_netlink_timeout_cb_def)
qed

text \<open>C19: for an IPv4 client, an address notification ends the lease exactly when it is well
  formed, for the client's interface, family and prefix length, and its last \<open>IFA_LOCAL\<close>, if it
  has one, is the client's address.\<close>

theorem deladdr_matches_ipv4:
  assumes "ta_family (tac_addr ctx) = AF_INET" and "\<forall>(ty, p) \<in> set (ifa_attrs m). p \<noteq> []"
  shows "table_allocator_client_netlink_handle_deladdr ctx m = Inr
    (ifa_attrs_ok m \<and> ifa_index m = ta_ifidx (tac_addr ctx) \<and> ifa_family m = AF_INET
     \<and> ifa_prefixlen m = subnet_prefix_len (tac_addr ctx)
     \<and> (case filter (\<lambda>(ty, p). ty = IFA_LOCAL) (ifa_attrs m) of
          [] \<Rightarrow> True | xs \<Rightarrow> hd (snd (last xs)) = ta_addr4 (tac_addr ctx)))"
proof -
  let ?xs = "filter (\<lambda>(ty, p). ty = IFA_LOCAL) (ifa_attrs m)"
  have "filter (\<lambda>(t, p). t = IFA_LOCAL \<and> t \<le> IFA_MAX) (ifa_attrs m) = ?xs"
    by (rule filter_cong) (auto simp: ifa_defs)
  then have tb: "fold (table_allocator_client_netlink_parse_nlattr IFA_MAX) (ifa_attrs m) Map.empty IFA_LOCAL
      = (case ?xs of [] \<Rightarrow> None | xs \<Rightarrow> Some (snd (last xs)))"
    by (simp add: last_attr)
  have one: "read_words 1 p = Inr [hd p]" if "p \<noteq> []" for p
    using that by (cases p) (simp_all add: read_words_def)
  show ?thesis
  proof (cases ?xs)
    case Nil
    then show ?thesis
      using assms(1) tb by (auto simp: table_allocator_client_netlink_handle_deladdr_def Let_def af_defs)
  next
    case (Cons x xs)
    then have "last ?xs \<in> set ?xs" by (intro last_in_set) (rule Cons [THEN ssubst], simp)
    then have mem: "last ?xs \<in> set (ifa_attrs m)" unfolding set_filter by blast
    obtain ty pl where last: "last ?xs = (ty, pl)" by (rule prod.exhaust)
    have pl: "pl \<noteq> []" using bspec [OF assms(2) mem] unfolding last by simp
    have tb': "fold (table_allocator_client_netlink_parse_nlattr IFA_MAX) (ifa_attrs m) Map.empty IFA_LOCAL = Some pl"
      using tb Cons last by simp
    have tail: "(case ?xs of [] \<Rightarrow> True | xs \<Rightarrow> hd (snd (last xs)) = ta_addr4 (tac_addr ctx)) = (hd pl = ta_addr4 (tac_addr ctx))"
      using Cons last by simp
    show ?thesis
      unfolding tail using assms(1) tb' one [OF pl]
      by (auto simp add: table_allocator_client_netlink_handle_deladdr_def Let_def)
  qed
qed

section \<open>Witnesses\<close>

definition leased_addr :: tac_address where
  "leased_addr = \<lparr>ta_addr4 = 0x0200000A, ta_addr6 = [0, 0, 0, 0], ta_ifidx = 3, ta_rt_table = 10000,
     ta_lease_expires = 3700, subnet_prefix_len = 24, ta_family = AF_INET, rules_added = False,
     ta_ifname = ''eth1'' @ zero_buf 12, ta_address_str = ''10.0.0.2'' @ zero_buf 38, ta_tag = zero_buf 128\<rparr>"

definition leased_tac :: tac_ctx where
  "leased_tac = \<lparr>rt_mnl_socket = True, tac_addr = leased_addr, destination = ''tas_socket'' @ zero_buf 96,
     rcv_buf = zero_buf 254, tac_use_syslog = False, tac_cmd = 0, daemonize = True, daemonized = False,
     closing = False, num_failed = 0, tac_trace = []\<rparr>"

lemma leased_tac_simps [simp]:
  "rt_mnl_socket leased_tac" "tac_addr leased_tac = leased_addr" "ta_family leased_addr = AF_INET"
  "\<not> rules_added leased_addr" "ta_rt_table leased_addr = 10000"
  by (simp_all add: leased_tac_def leased_addr_def)

theorem rules_added_once_and_deleted_witness:
  "\<exists>ctx1 ctx2 rules. table_allocator_client_netlink_update_rules (\<lambda>i. 0) RTM_NEWRULE leased_tac = Inr ctx1
    \<and> tac_trace ctx1 = tac_trace leased_tac @ map Rule_request rules \<and> length rules = 3
    \<and> table_allocator_client_netlink_update_rules (\<lambda>i. 0) RTM_DELRULE ctx1 = Inr ctx2"
  using rules_added_once_and_deleted [of leased_tac "\<lambda>i. 0" "\<lambda>i. 0"]
  by (simp add: rules_ok_def) blast

theorem failed_rules_are_retried_witness:
  "\<exists>sent. table_allocator_client_netlink_update_rules (\<lambda>i. if i = 1 then -1 else 0) RTM_NEWRULE leased_tac =
      Inr (cemit (map Rule_request sent @ [Timer_start Netlink_timeout 1000 0]) leased_tac)"
  using failed_rules_are_retried [of leased_tac "\<lambda>i. if i = 1 then -1 else 0"]
  by (auto simp: rules_ok_iff)

theorem deladdr_matches_ipv4_witness:
  "table_allocator_client_netlink_handle_deladdr leased_tac
     \<lparr>ifa_family = AF_INET, ifa_prefixlen = 24, ifa_index = 3, ifa_attrs = [(1, [0xFF00000A]), (2, [0x0200000A])],
      ifa_attrs_ok = True\<rparr> = Inr True"
  using deladdr_matches_ipv4 [of leased_tac "\<lparr>ifa_family = AF_INET, ifa_prefixlen = 24, ifa_index = 3,
      ifa_attrs = [(1, [0xFF00000A]), (2, [0x0200000A])], ifa_attrs_ok = True\<rparr>"]
  by (simp add: leased_addr_def ifa_defs)

end
