(* ===== verification/Client.thy ===== *)
theory Client
  imports Client_Rules Json_Messages Socket_Helpers Runs
begin

text \<open>
  The client's callbacks (\<^verbatim>\<open>table_allocator_client.c\<close>, and the netlink receive callback of
  \<^verbatim>\<open>table_allocator_client_netlink.c\<close>, which ends a lease): requests, their retransmission and
  the limit on failures, replies, renewal at half of the lease, and the end. The client as an
  event-driven program is \<open>tac_handle\<close>.
\<close>

definition REQUEST_RETRANSMISSION_MS :: nat where "REQUEST_RETRANSMISSION_MS = 2000"
definition NUM_FAILED_LIMIT :: u8 where "NUM_FAILED_LIMIT = 5"

section \<open>Requests\<close>

text \<open>
  Outcomes of the constructors of the message, of \<open>sendto\<close>, of \<open>uv_udp_recv_start\<close> (which the
  code does not look at: it decides whether a reply can be delivered) and of \<open>uv_timer_start\<close>.
\<close>

record send_env =
  se_alloc :: "nat \<Rightarrow> bool"
  se_sendto :: int
  se_recv_start :: int
  se_timer :: int

definition client_recv_start :: "send_env \<Rightarrow> effect list" where
  "client_recv_start env = (if se_recv_start env < 0 then [] else [Udp_recv_start Unix_socket])"

definition start_request_timer :: "send_env \<Rightarrow> tac_ctx \<Rightarrow> tac_ctx res" where
  "start_request_timer env ctx =
     (if se_timer env \<noteq> 0 then Inl Exit_failure
      else Inr (cemit [Timer_start Request_timeout REQUEST_RETRANSMISSION_MS 0] ctx))"

definition table_allocator_client_send_request ::
  "jsonc \<Rightarrow> send_env \<Rightarrow> tac_ctx \<Rightarrow> u8 \<Rightarrow> tac_ctx res" where
  "table_allocator_client_send_request jc env ctx cmd =
     bindR (c_string (ta_address_str (tac_addr ctx))) (\<lambda>address_str.
     bindR (c_string (ta_ifname (tac_addr ctx))) (\<lambda>ifname.
     bindR (c_string (ta_tag (tac_addr ctx))) (\<lambda>tag.
       case table_allocator_shared_json_create_req (se_alloc env) address_str ifname tag
              (ta_family (tac_addr ctx)) cmd of
         None \<Rightarrow> start_request_timer env ctx
       | Some req_obj \<Rightarrow>
           let json_str = cstr (jc_print jc req_obj) in
           bindR (c_string (destination ctx)) (\<lambda>dest.
           bindR (abstract_address dest) (\<lambda>remote_addr.
             let ctx = cemit [Sendto dest json_str (se_sendto env)] ctx;
                 ctx = (if se_sendto env < 0 then ctx else cemit (client_recv_start env) ctx)
             in start_request_timer env ctx)))))"

definition table_allocator_client_check_fail_count :: "tac_ctx \<Rightarrow> bool \<times> tac_ctx" where
  "table_allocator_client_check_fail_count ctx =
     (let ctx = ctx\<lparr>num_failed := num_failed ctx + 1\<rparr> in
      if num_failed ctx < NUM_FAILED_LIMIT then (True, ctx)
      else (False, (cemit [Print_table (ta_rt_table (tac_addr ctx)), Loop_stop] ctx)\<lparr>closing := True\<rparr>))"

definition client_request_timeout_handle_cb :: "jsonc \<Rightarrow> send_env \<Rightarrow> tac_ctx \<Rightarrow> tac_ctx res" where
  "client_request_timeout_handle_cb jc env ctx =
     (if ta_rt_table (tac_addr ctx) \<noteq> 0
      then table_allocator_client_send_request jc env ctx TA_SHARED_CMD_REQ
      else case table_allocator_client_check_fail_count ctx of
        (True, ctx1) \<Rightarrow> table_allocator_client_send_request jc env ctx1 TA_SHARED_CMD_REQ
      | (False, ctx1) \<Rightarrow> Inr ctx1)"

section \<open>The socket\<close>

definition client_socket_handle_close_cb :: "tac_ctx \<Rightarrow> tac_ctx" where
  "client_socket_handle_close_cb ctx =
     (if closing ctx then ctx
      else cemit [Udp_init Unix_socket, Timer_start Unix_socket_timeout 100 0] ctx)"

definition client_socket_stop_recv :: "bool \<Rightarrow> tac_ctx \<Rightarrow> tac_ctx" where
  "client_socket_stop_recv is_closing =
     cemit ([Udp_recv_stop Unix_socket, Timer_stop Request_timeout, Timer_stop Unix_socket_timeout]
       @ (if \<not> is_closing then [Uv_close Unix_socket] else []))"

text \<open>\<open>snprintf\<close> of \<^verbatim>\<open>%s-%s-%u\<close> into the 65 bytes of \<open>unix_socket_addr\<close>: at most 64 characters.\<close>

definition UNIX_SOCKET_ADDR_SIZE :: nat where
  "UNIX_SOCKET_ADDR_SIZE = IFNAMSIZ + INET6_ADDRSTRLEN + 3"

definition client_socket_name :: "string \<Rightarrow> string \<Rightarrow> u8 \<Rightarrow> string" where
  "client_socket_name ifname address_str addr_family =
     take (UNIX_SOCKET_ADDR_SIZE - 1) (ifname @ ''-'' @ address_str @ ''-'' @ dec (unat addr_family))"

definition client_socket_timeout_cb :: "jsonc \<Rightarrow> open_env \<Rightarrow> send_env \<Rightarrow> tac_ctx \<Rightarrow> tac_ctx res" where
  "client_socket_timeout_cb jc oenv senv ctx =
     (if closing ctx then Inr ctx
      else bindR (c_string (ta_ifname (tac_addr ctx))) (\<lambda>ifname.
           bindR (c_string (ta_address_str (tac_addr ctx))) (\<lambda>address_str.
           bindR (open_unix_handle oenv (client_socket_name ifname address_str (ta_family (tac_addr ctx))))
             (\<lambda>(success, sock_fd, es).
               if success
               then table_allocator_client_send_request jc senv
                      (cemit (es @ [Timer_stop Unix_socket_timeout]) ctx) TA_SHARED_CMD_REQ
               else Inr (cemit (es @ retry_unix_handle oenv) ctx)))))"

section \<open>Replies\<close>

definition client_socket_alloc_cb :: "tac_ctx \<Rightarrow> string \<times> nat" where
  "client_socket_alloc_cb ctx = (rcv_buf ctx, TA_SHARED_MAX_JSON_LEN)"

definition client_receive_into :: "string \<Rightarrow> tac_ctx \<Rightarrow> tac_ctx" where
  "client_receive_into data ctx = (case client_socket_alloc_cb ctx of (base, len) \<Rightarrow>
     ctx\<lparr>rcv_buf := take len data @ drop (length (take len data)) base\<rparr>)"

text \<open>
  The clock, the outcome of \<open>daemon\<close>, of the three rule messages, whether the socket is already
  closing, and what the uninitialised \<open>ver\<close> and \<open>cmd\<close> hold when the reply does not set them.
\<close>

record reply_env =
  re_tv_sec :: int
  re_daemon :: int
  re_rules :: "nat \<Rightarrow> int"
  re_closing :: bool
  re_ver :: u8
  re_cmd :: u8

definition retransmit_later :: "tac_ctx \<Rightarrow> tac_ctx" where
  "retransmit_later = cemit [Timer_start Request_timeout REQUEST_RETRANSMISSION_MS 0]"

text \<open>Milliseconds until the renewal: \<open>(tdiff / 2) * 1000\<close> in 32 bits.\<close>

definition renewal_timeout :: "u32 \<Rightarrow> int \<Rightarrow> u32" where
  "renewal_timeout lease_expires tv_sec =
     (let tdiff = word_of_int (uint lease_expires - tv_sec) :: u32 in (tdiff div 2) * 1000)"

text \<open>The part of the callback after the reply has been accepted.\<close>

definition accept_lease :: "reply_env \<Rightarrow> string option \<Rightarrow> u32 \<Rightarrow> tac_ctx \<Rightarrow> tac_ctx res" where
  "accept_lease env addr table ctx =
     (let ctx = ctx\<lparr>tac_addr := (tac_addr ctx)\<lparr>ta_rt_table := table\<rparr>, num_failed := 0\<rparr> in
      if addr = None then Inl Null_pointer
      else
        let timeout = renewal_timeout (ta_lease_expires (tac_addr ctx)) (re_tv_sec env);
            ctx = cemit [Print_table (ta_rt_table (tac_addr ctx))] ctx;
            fork = (\<not> daemonized ctx \<and> daemonize ctx);
            ctx = (if fork then cemit [Daemonize] ctx else ctx)
        in if fork \<and> re_daemon env \<noteq> 0 then Inl Exit_failure
           else bindR (if \<not> rules_added (tac_addr ctx)
                       then table_allocator_client_netlink_update_rules (re_rules env) RTM_NEWRULE ctx
                       else Inr ctx) (\<lambda>ctx.
                let ctx = ctx\<lparr>daemonized := True\<rparr> in
                Inr (cemit [Timer_start Request_timeout (unat timeout) 0] ctx)))"

definition client_socket_recv_cb ::
  "jsonc \<Rightarrow> reply_env \<Rightarrow> int \<Rightarrow> bool \<Rightarrow> string option \<Rightarrow> tac_ctx \<Rightarrow> tac_ctx res" where
  "client_socket_recv_cb jc env nread partial addr ctx =
     (if closing ctx \<or> nread = 0 then Inr ctx
      else if partial then Inr (retransmit_later ctx)
      else if nread < 0 then
        (if ta_rt_table (tac_addr ctx) \<noteq> 0 then Inr (client_socket_stop_recv (re_closing env) ctx)
         else case table_allocator_client_check_fail_count ctx of
           (True, ctx1) \<Rightarrow> Inr (client_socket_stop_recv (re_closing env) ctx1)
         | (False, ctx1) \<Rightarrow> Inr ctx1)
      else bindR (c_string (rcv_buf ctx)) (\<lambda>body.
           bindR (tables_allocator_shared_json_parse_client_reply jc body
                    \<lparr>rep_ver = re_ver env, rep_cmd = re_cmd env, rep_table = 0,
                     rep_lease = ta_lease_expires (tac_addr ctx)\<rparr>) (\<lambda>(parsed, rp).
             if \<not> parsed then (if addr = None then Inl Null_pointer else Inr ctx)
             else
               let ctx = ctx\<lparr>tac_addr := (tac_addr ctx)\<lparr>ta_lease_expires := rep_lease rp\<rparr>\<rparr> in
               if rep_ver rp \<noteq> TA_VERSION then Inr (cemit [Loop_stop] ctx)
               else if rep_cmd rp \<noteq> TA_SHARED_CMD_RESP \<or> rep_table rp = 0
               then Inr (retransmit_later ctx)
               else accept_lease env addr (rep_table rp) ctx)))"

section \<open>The end of a lease\<close>

text \<open>The loop over the messages of one read; the first that ends the lease ends the loop.\<close>

fun netlink_messages :: "jsonc \<Rightarrow> (nat \<Rightarrow> int) \<Rightarrow> send_env \<Rightarrow> nlmsg list \<Rightarrow> tac_ctx \<Rightarrow> tac_ctx res" where
  "netlink_messages jc rcs senv [] ctx = Inr ctx"
| "netlink_messages jc rcs senv (m # ms) ctx =
     bindR (case m of
              Dellink i \<Rightarrow> Inr (table_allocator_client_netlink_handle_dellink ctx i)
            | Deladdr ifa \<Rightarrow> table_allocator_client_netlink_handle_deladdr ctx ifa
            | Other_nlmsg \<Rightarrow> Inr False) (\<lambda>should_delete.
       if should_delete then
         bindR (table_allocator_client_netlink_update_rules rcs RTM_DELRULE ctx) (\<lambda>ctx.
         bindR (table_allocator_client_send_request jc senv ctx TA_SHARED_CMD_REL) (\<lambda>ctx.
           Inr ((cemit [Loop_stop] ctx)\<lparr>closing := True\<rparr>)))
       else netlink_messages jc rcs senv ms ctx)"

definition table_allocator_client_netlink_recv_cb ::
  "jsonc \<Rightarrow> (nat \<Rightarrow> int) \<Rightarrow> send_env \<Rightarrow> int \<Rightarrow> nlmsg list \<Rightarrow> tac_ctx \<Rightarrow> tac_ctx res" where
  "table_allocator_client_netlink_recv_cb jc rcs senv nread msgs ctx =
     (if closing ctx then Inr ctx
      else if nread \<le> 0 then Inr ctx
      else netlink_messages jc rcs senv msgs ctx)"

text \<open>
  \<open>free_ctx\<close> up to the release of the memory. \<open>mnl_socket_close\<close> takes a socket, which the
  client has only for IPv4, and frees it: a socket that is already closed is used after its end. The
  calls of libuv are effects, whatever the state of their handles: what \<open>uv_close\<close> does with a
  handle that was never initialised (the netlink handles of a client for another family) or is closing
  already, and the last turn of the loop, which runs the close callbacks, are not modelled.
\<close>

definition free_ctx :: "tac_ctx \<Rightarrow> tac_ctx res" where
  "free_ctx ctx =
     (let ctx = ctx\<lparr>closing := True\<rparr>;
          ctx = (if rt_mnl_socket ctx then table_allocator_client_netlink_stop ctx else ctx);
          ctx = cemit [Timer_stop Unix_socket_timeout, Timer_stop Request_timeout, Timer_stop Netlink_timeout,
                  Timer_close Unix_socket_timeout, Timer_close Request_timeout, Timer_close Netlink_timeout,
                  Uv_close Unix_socket, Uv_close Netlink_socket] ctx
      in if \<not> rt_mnl_socket ctx then Inl Null_pointer
         else if Mnl_close \<in> set (tac_trace ctx) then Inl Use_after_free
         else Inr (cemit [Mnl_close] ctx))"

section \<open>The client as a whole\<close>

datatype tac_event =
    Socket_timer open_env send_env
  | Request_timer send_env
  | Rules_timer "nat \<Rightarrow> int"
  | Reply reply_env string "string option"
  | Reply_error reply_env int
  | Socket_closed
  | Netlink "nat \<Rightarrow> int" send_env int "nlmsg list"

fun tac_handle :: "jsonc \<Rightarrow> tac_event \<Rightarrow> tac_ctx \<Rightarrow> tac_ctx res" where
  "tac_handle jc (Socket_timer oenv senv) ctx = client_socket_timeout_cb jc oenv senv ctx"
| "tac_handle jc (Request_timer senv) ctx = client_request_timeout_handle_cb jc senv ctx"
| "tac_handle jc (Rules_timer rcs) ctx = table_allocator_client_netlink_timeout_cb rcs ctx"
| "tac_handle jc (Reply env data addr) ctx =
     client_socket_recv_cb jc env (int (length data)) (TA_SHARED_MAX_JSON_LEN < length data) addr
       (client_receive_into data ctx)"
| "tac_handle jc (Reply_error env nread) ctx = client_socket_recv_cb jc env nread False None ctx"
| "tac_handle jc Socket_closed ctx = Inr (client_socket_handle_close_cb ctx)"
| "tac_handle jc (Netlink rcs senv nread msgs) ctx =
     table_allocator_client_netlink_recv_cb jc rcs senv nread msgs ctx"

section \<open>Lemmas\<close>

text \<open>What no callback changes, and what the client needs of it.\<close>

definition tac_frame :: "tac_ctx \<Rightarrow> bool \<times> string \<times> string \<times> string \<times> string \<times> string \<times> u8" where
  "tac_frame ctx = (rt_mnl_socket ctx, destination ctx, rcv_buf ctx, ta_ifname (tac_addr ctx),
     ta_address_str (tac_addr ctx), ta_tag (tac_addr ctx), ta_family (tac_addr ctx))"

definition tac_safe :: "tac_ctx \<Rightarrow> bool" where
  "tac_safe ctx \<longleftrightarrow> rt_mnl_socket ctx \<and> ta_family (tac_addr ctx) = AF_INET
     \<and> terminated IFNAMSIZ (ta_ifname (tac_addr ctx))
     \<and> terminated INET6_ADDRSTRLEN (ta_address_str (tac_addr ctx))
     \<and> terminated TA_SHARED_MAX_TAG_SIZE (ta_tag (tac_addr ctx))
     \<and> terminated TA_SHARED_MAX_ADDR_SIZE (destination ctx)
     \<and> terminated TA_SHARED_MAX_JSON_LEN (rcv_buf ctx)"

lemma tac_safe_frame: "tac_frame ctx' = tac_frame ctx \<Longrightarrow> tac_safe ctx' = tac_safe ctx"
  by (simp add: tac_safe_def tac_frame_def)

lemma tac_frame_simps [simp]:
  "tac_frame (cemit es ctx) = tac_frame ctx" "tac_frame (ctx\<lparr>closing := b\<rparr>) = tac_frame ctx"
  "tac_frame (ctx\<lparr>daemonized := b\<rparr>) = tac_frame ctx" "tac_frame (ctx\<lparr>num_failed := n\<rparr>) = tac_frame ctx"
  "tac_frame (ctx\<lparr>tac_addr := (tac_addr ctx)\<lparr>rules_added := b\<rparr>\<rparr>) = tac_frame ctx"
  "tac_frame (ctx\<lparr>tac_addr := (tac_addr ctx)\<lparr>ta_rt_table := t\<rparr>\<rparr>) = tac_frame ctx"
  "tac_frame (ctx\<lparr>tac_addr := (tac_addr ctx)\<lparr>ta_lease_expires := t\<rparr>\<rparr>) = tac_frame ctx"
  "tac_frame (ctx\<lparr>tac_addr := (tac_addr ctx)\<lparr>ta_rt_table := t\<rparr>, num_failed := n\<rparr>) = tac_frame ctx"
  by (simp_all add: tac_frame_def)

text \<open>The text of the request with a given command.\<close>

definition request_text :: "jsonc \<Rightarrow> tac_ctx \<Rightarrow> u8 \<Rightarrow> string" where
  "request_text jc ctx cmd = cstr (jc_print jc (JObject (request_fields
     (cstr (ta_address_str (tac_addr ctx))) (cstr (ta_ifname (tac_addr ctx)))
     (cstr (ta_tag (tac_addr ctx))) (ta_family (tac_addr ctx)) cmd)))"

definition request_effects :: "jsonc \<Rightarrow> send_env \<Rightarrow> tac_ctx \<Rightarrow> u8 \<Rightarrow> effect list" where
  "request_effects jc env ctx cmd =
     [Sendto (cstr (destination ctx)) (request_text jc ctx cmd) (se_sendto env)]
     @ (if se_sendto env < 0 then [] else client_recv_start env)
     @ [Timer_start Request_timeout REQUEST_RETRANSMISSION_MS 0]"

lemma sent_client_recv_start [simp]: "sent (client_recv_start env) = []"
  by (simp add: client_recv_start_def)

lemma c_string_terminated: "terminated n b \<Longrightarrow> c_string b = Inr (cstr b)"
  by (simp add: c_string_def terminated_nul)

lemma send_request_eq:
  assumes "tac_safe ctx" and "se_timer env = 0"
  shows "table_allocator_client_send_request jc env ctx cmd = Inr (cemit
    (if table_allocator_shared_json_create_req (se_alloc env) (cstr (ta_address_str (tac_addr ctx)))
          (cstr (ta_ifname (tac_addr ctx))) (cstr (ta_tag (tac_addr ctx))) (ta_family (tac_addr ctx)) cmd = None
     then [Timer_start Request_timeout REQUEST_RETRANSMISSION_MS 0]
     else request_effects jc env ctx cmd) ctx)"
proof -
  let ?fields = "request_fields (cstr (ta_address_str (tac_addr ctx))) (cstr (ta_ifname (tac_addr ctx)))
    (cstr (ta_tag (tac_addr ctx))) (ta_family (tac_addr ctx)) cmd"
  let ?req = "table_allocator_shared_json_create_req (se_alloc env) (cstr (ta_address_str (tac_addr ctx)))
          (cstr (ta_ifname (tac_addr ctx))) (cstr (ta_tag (tac_addr ctx))) (ta_family (tac_addr ctx)) cmd"
  have strings: "c_string (ta_address_str (tac_addr ctx)) = Inr (cstr (ta_address_str (tac_addr ctx)))"
    "c_string (ta_ifname (tac_addr ctx)) = Inr (cstr (ta_ifname (tac_addr ctx)))"
    "c_string (ta_tag (tac_addr ctx)) = Inr (cstr (ta_tag (tac_addr ctx)))"
    "c_string (destination ctx) = Inr (cstr (destination ctx))"
    using assms(1) c_string_terminated by (auto simp: tac_safe_def)
  have "length (cstr (destination ctx)) < TA_SHARED_MAX_ADDR_SIZE"
    using assms(1) terminated_cstr_length by (simp add: tac_safe_def)
  then have dest: "\<exists>a. abstract_address (cstr (destination ctx)) = Inr a"
    by (simp add: abstract_address_ok SUN_PATH_SIZE_def size_defs)
  have "?req = None \<or> ?req = Some (JObject ?fields)"
    using add_fields_cases [of "se_alloc env" 1 ?fields "[]"]
    by (auto simp: table_allocator_shared_json_create_req_def)
  then show ?thesis
    using dest assms(2)
    by (auto simp: table_allocator_client_send_request_def strings start_request_timer_def
        request_effects_def request_text_def Let_def)
qed

lemma send_request_total:
  assumes "tac_safe ctx" and "se_timer env = 0"
  shows "\<exists>es. table_allocator_client_send_request jc env ctx cmd = Inr (cemit es ctx)"
  using send_request_eq [OF assms] by metis

lemma check_fail_frame:
  "tac_frame (snd (table_allocator_client_check_fail_count ctx)) = tac_frame ctx"
  by (simp add: table_allocator_client_check_fail_count_def Let_def)

lemma request_timer_total:
  assumes "tac_safe ctx" and "se_timer env = 0"
  shows "\<exists>ctx'. client_request_timeout_handle_cb jc env ctx = Inr ctx' \<and> tac_frame ctx' = tac_frame ctx"
proof -
  obtain go c where c: "table_allocator_client_check_fail_count ctx = (go, c)" by fastforce
  then have frame: "tac_frame c = tac_frame ctx" using check_fail_frame [of ctx] by simp
  then have safe: "tac_safe c" using assms(1) tac_safe_frame by blast
  show ?thesis
  proof (cases "ta_rt_table (tac_addr ctx) \<noteq> 0")
    case True
    then show ?thesis
      using send_request_total [OF assms, of jc TA_SHARED_CMD_REQ] by (auto simp: client_request_timeout_handle_cb_def)
  next
    case False
    then show ?thesis
      using send_request_total [OF safe assms(2), of jc TA_SHARED_CMD_REQ] frame
      by (cases go) (auto simp: client_request_timeout_handle_cb_def c)
  qed
qed

lemma rules_total:
  assumes "tac_safe ctx"
  shows "\<exists>ctx'. table_allocator_client_netlink_update_rules rcs t ctx = Inr ctx' \<and> tac_frame ctx' = tac_frame ctx"
  using update_rules_total [of ctx rcs t] assms by (auto simp: tac_safe_def)

lemma socket_timer_total_client:
  assumes "tac_safe ctx" and "se_timer senv = 0"
  shows "\<exists>ctx'. client_socket_timeout_cb jc oenv senv ctx = Inr ctx' \<and> tac_frame ctx' = tac_frame ctx"
proof -
  let ?name = "client_socket_name (cstr (ta_ifname (tac_addr ctx))) (cstr (ta_address_str (tac_addr ctx))) (ta_family (tac_addr ctx))"
  obtain ok fd es where o: "open_unix_handle oenv ?name = Inr (ok, fd, es)"
    using open_unix_handle_total by (metis prod_cases3)
  have strings: "c_string (ta_address_str (tac_addr ctx)) = Inr (cstr (ta_address_str (tac_addr ctx)))"
    "c_string (ta_ifname (tac_addr ctx)) = Inr (cstr (ta_ifname (tac_addr ctx)))"
    using assms(1) c_string_terminated by (auto simp: tac_safe_def)
  let ?c = "cemit (es @ [Timer_stop Unix_socket_timeout]) ctx"
  have "tac_safe ?c" using assms(1) tac_safe_frame by (metis tac_frame_simps(1))
  then obtain ds where "table_allocator_client_send_request jc senv ?c TA_SHARED_CMD_REQ = Inr (cemit ds ?c)"
    using send_request_total assms(2) by blast
  then show ?thesis
    using o by (auto simp: client_socket_timeout_cb_def strings)
qed

lemma accept_lease_total:
  assumes "tac_safe ctx" and "addr \<noteq> None" and "re_daemon env = 0"
  shows "\<exists>ctx'. accept_lease env addr table ctx = Inr ctx' \<and> tac_frame ctx' = tac_frame ctx"
proof -
  let ?c = "ctx\<lparr>tac_addr := (tac_addr ctx)\<lparr>ta_rt_table := table\<rparr>, num_failed := 0\<rparr>"
  have "\<exists>c. table_allocator_client_netlink_update_rules (re_rules env) RTM_NEWRULE (cemit es ?c) = Inr c
      \<and> tac_frame c = tac_frame ctx" for es
    using rules_total [of "cemit es ?c" "re_rules env" RTM_NEWRULE] assms(1) tac_safe_frame [of "cemit es ?c" ctx]
    by simp
  then obtain f where f: "\<And>es. table_allocator_client_netlink_update_rules (re_rules env) RTM_NEWRULE (cemit es ?c) = Inr (f es)"
      "\<And>es. tac_frame (f es) = tac_frame ctx" by metis
  show ?thesis
    using assms(2,3) f by (auto simp: accept_lease_def Let_def)
qed

lemma parse_reply_total:
  assumes "object_or_junk (jc_parse jc body)"
  shows "\<exists>ok rp'. tables_allocator_shared_json_parse_client_reply jc body rp = Inr (ok, rp')"
proof (cases "jc_parse jc body")
  case (Some obj)
  with assms obtain kvs where obj: "obj = JObject kvs" by (cases obj) simp_all
  have "\<exists>rp'. parse_reply_member jc kv r = Inr rp'" for kv r
    by (cases kv) (auto simp: parse_reply_member_def split: json.split)
  then have "\<exists>rp'. foldR (parse_reply_member jc) kvs rp = Inr rp' \<and> True"
    by (intro foldR_total) auto
  then show ?thesis
    by (auto simp: tables_allocator_shared_json_parse_client_reply_def foreach_member_def Some obj)
qed (auto simp: tables_allocator_shared_json_parse_client_reply_def)

lemma client_recv_total:
  assumes "tac_safe ctx" and "addr \<noteq> None \<or> nread < 0" and "re_daemon env = 0"
    and "0 < nread \<Longrightarrow> object_or_junk (jc_parse jc (cstr (rcv_buf ctx)))"
  shows "\<exists>ctx'. client_socket_recv_cb jc env nread partial addr ctx = Inr ctx' \<and> tac_frame ctx' = tac_frame ctx"
proof (cases "closing ctx \<or> nread \<le> 0 \<or> partial")
  case True
  obtain go c where c: "table_allocator_client_check_fail_count ctx = (go, c)" by fastforce
  then have "tac_frame c = tac_frame ctx" using check_fail_frame [of ctx] by simp
  with True show ?thesis
    by (cases go) (auto simp: client_socket_recv_cb_def retransmit_later_def client_socket_stop_recv_def c)
next
  case False
  then have addr: "addr \<noteq> None" using assms(2) by auto
  then obtain sender where sender: "addr = Some sender" by blast
  have str: "c_string (rcv_buf ctx) = Inr (cstr (rcv_buf ctx))"
    using assms(1) c_string_terminated by (auto simp: tac_safe_def)
  let ?rp = "\<lparr>rep_ver = re_ver env, rep_cmd = re_cmd env, rep_table = 0, rep_lease = ta_lease_expires (tac_addr ctx)\<rparr>"
  obtain ok rp where parse: "tables_allocator_shared_json_parse_client_reply jc (cstr (rcv_buf ctx)) ?rp = Inr (ok, rp)"
    using parse_reply_total assms(4) False by (meson not_le)
  let ?c = "ctx\<lparr>tac_addr := (tac_addr ctx)\<lparr>ta_lease_expires := rep_lease rp\<rparr>\<rparr>"
  have frame: "tac_frame ?c = tac_frame ctx" by simp
  then have "tac_safe ?c" using assms(1) tac_safe_frame by blast
  from accept_lease_total [OF this addr assms(3)] frame
  obtain d where d: "accept_lease env addr (rep_table rp) ?c = Inr d" "tac_frame d = tac_frame ctx" by metis
  have "client_socket_recv_cb jc env nread partial addr ctx =
      (if \<not> ok then Inr ctx
       else if rep_ver rp \<noteq> TA_VERSION then Inr (cemit [Loop_stop] ?c)
       else if rep_cmd rp \<noteq> TA_SHARED_CMD_RESP \<or> rep_table rp = 0 then Inr (retransmit_later ?c)
       else Inr d)"
    using False d(1) by (simp add: client_socket_recv_cb_def str parse sender Let_def)
  then show ?thesis using frame d(2) by (auto simp: retransmit_later_def)
qed

definition attrs_readable :: "nlmsg \<Rightarrow> bool" where
  "attrs_readable m = (case m of Deladdr ifa \<Rightarrow> list_all (\<lambda>(ty, p). p \<noteq> []) (ifa_attrs ifa) | _ \<Rightarrow> True)"

text \<open>Whether a message ends the lease of the client.\<close>

definition ends_lease :: "tac_ctx \<Rightarrow> nlmsg \<Rightarrow> bool res" where
  "ends_lease ctx m = (case m of
     Dellink i \<Rightarrow> Inr (table_allocator_client_netlink_handle_dellink ctx i)
   | Deladdr ifa \<Rightarrow> table_allocator_client_netlink_handle_deladdr ctx ifa
   | Other_nlmsg \<Rightarrow> Inr False)"

lemma ends_lease_total:
  assumes "ta_family (tac_addr ctx) = AF_INET" and "attrs_readable m"
  shows "\<exists>b. ends_lease ctx m = Inr b"
proof (cases m)
  case (Deladdr ifa)
  let ?tb = "fold (table_allocator_client_netlink_parse_nlattr IFA_MAX) (ifa_attrs ifa) Map.empty"
  have "\<exists>ws. read_words 1 p = Inr ws" if "?tb IFA_LOCAL = Some p" for p
  proof -
    let ?xs = "filter (\<lambda>(t, p). t = IFA_LOCAL \<and> t \<le> IFA_MAX) (ifa_attrs ifa)"
    from that obtain y ys where y: "?xs = y # ys" "p = snd (last ?xs)"
      unfolding last_attr by (cases ?xs) simp_all
    then have "last ?xs \<in> set ?xs" by (intro last_in_set) simp
    then have "last ?xs \<in> set (ifa_attrs ifa)" unfolding set_filter by blast
    then have "case last ?xs of (ty, p) \<Rightarrow> p \<noteq> []"
      using assms(2) unfolding attrs_readable_def Deladdr nlmsg.case list_all_iff by (rule bspec [rotated])
    then have "p \<noteq> []" by (simp only: y(2) case_prod_unfold not_False_eq_True)
    then show ?thesis by (cases p) (simp_all add: read_words_def)
  qed
  then show ?thesis
    using assms(1)
    by (auto simp: ends_lease_def Deladdr table_allocator_client_netlink_handle_deladdr_def Let_def af_defs
        split: option.split bool.split)
qed (auto simp: ends_lease_def)

lemma netlink_messages_Cons:
  "netlink_messages jc rcs senv (m # ms) ctx = bindR (ends_lease ctx m) (\<lambda>should_delete.
     if should_delete then netlink_messages jc rcs senv [m] ctx else netlink_messages jc rcs senv ms ctx)"
  by (cases "ends_lease ctx m") (auto simp: ends_lease_def)

lemma end_lease_total:
  assumes "tac_safe ctx" and "se_timer senv = 0" and "ends_lease ctx m = Inr True"
  shows "\<exists>ctx'. netlink_messages jc rcs senv [m] ctx = Inr ctx' \<and> tac_frame ctx' = tac_frame ctx"
proof -
  obtain c where c: "table_allocator_client_netlink_update_rules rcs RTM_DELRULE ctx = Inr c" "tac_frame c = tac_frame ctx"
    using rules_total [OF assms(1)] by blast
  then have "tac_safe c" using assms(1) tac_safe_frame by blast
  then obtain es where "table_allocator_client_send_request jc senv c TA_SHARED_CMD_REL = Inr (cemit es c)"
    using send_request_total assms(2) by blast
  then show ?thesis using c assms(3) by (simp add: ends_lease_def)
qed

lemma netlink_messages_total:
  assumes "tac_safe ctx" and "se_timer senv = 0" and "list_all attrs_readable ms"
  shows "\<exists>ctx'. netlink_messages jc rcs senv ms ctx = Inr ctx' \<and> tac_frame ctx' = tac_frame ctx"
  using assms(3)
proof (induction ms)
  case (Cons m ms)
  have fam: "ta_family (tac_addr ctx) = AF_INET" using assms(1) by (simp add: tac_safe_def)
  have "attrs_readable m" and ms: "list_all attrs_readable ms" using Cons.prems by simp_all
  with fam obtain b where b: "ends_lease ctx m = Inr b" using ends_lease_total by blast
  show ?case
  proof (cases b)
    case True
    with b have "netlink_messages jc rcs senv (m # ms) ctx = netlink_messages jc rcs senv [m] ctx"
      by (subst netlink_messages_Cons) simp
    with end_lease_total [OF assms(1,2)] b True show ?thesis by simp
  next
    case False
    with b have "netlink_messages jc rcs senv (m # ms) ctx = netlink_messages jc rcs senv ms ctx"
      by (subst netlink_messages_Cons) simp
    with Cons.IH [OF ms] show ?thesis by simp
  qed
qed simp

section \<open>The client as an event-driven program\<close>

fun tac_admissible :: "jsonc \<Rightarrow> tac_ctx \<Rightarrow> tac_event \<Rightarrow> bool" where
  "tac_admissible jc ctx (Socket_timer oenv senv) = (se_timer senv = 0)"
| "tac_admissible jc ctx (Request_timer senv) = (se_timer senv = 0)"
| "tac_admissible jc ctx (Rules_timer rcs) = True"
| "tac_admissible jc ctx (Reply env data addr) = (addr \<noteq> None \<and> re_daemon env = 0
     \<and> length data < TA_SHARED_MAX_JSON_LEN
     \<and> object_or_junk (jc_parse jc (cstr (rcv_buf (client_receive_into data ctx)))))"
| "tac_admissible jc ctx (Reply_error env nread) = (nread < 0 \<and> re_daemon env = 0)"
| "tac_admissible jc ctx Socket_closed = True"
| "tac_admissible jc ctx (Netlink rcs senv nread msgs) = (se_timer senv = 0 \<and> list_all attrs_readable msgs)"

lemma client_receive_terminated:
  "terminated TA_SHARED_MAX_JSON_LEN (rcv_buf ctx) \<Longrightarrow> length data < TA_SHARED_MAX_JSON_LEN \<Longrightarrow>
   terminated TA_SHARED_MAX_JSON_LEN (rcv_buf (client_receive_into data ctx))"
  by (auto simp: client_receive_into_def client_socket_alloc_cb_def terminated_def nth_append)

lemma client_receive_safe:
  "tac_safe ctx \<Longrightarrow> length data < TA_SHARED_MAX_JSON_LEN \<Longrightarrow> tac_safe (client_receive_into data ctx)"
  using client_receive_terminated [of ctx data]
  by (simp add: tac_safe_def client_receive_into_def client_socket_alloc_cb_def)

lemma tac_step:
  assumes "tac_safe ctx" and "tac_admissible jc ctx e"
  shows "\<exists>ctx'. tac_handle jc e ctx = Inr ctx' \<and> tac_safe ctx'"
proof -
  have frame: "\<exists>ctx'. tac_handle jc e ctx = Inr ctx' \<and> tac_safe ctx'"
    if "\<exists>ctx'. tac_handle jc e ctx = Inr ctx' \<and> tac_frame ctx' = tac_frame c" "tac_safe c" for c
    using that tac_safe_frame by blast
  show ?thesis
  proof (cases e)
    case (Socket_timer oenv senv)
    with assms socket_timer_total_client show ?thesis by (intro frame [of ctx]) simp_all
  next
    case (Request_timer senv)
    with assms request_timer_total show ?thesis by (intro frame [of ctx]) simp_all
  next
    case (Rules_timer rcs)
    with assms rules_total show ?thesis
      by (intro frame [of ctx]) (simp_all add: table_allocator_client_netlink_timeout_cb_def)
  next
    case (Reply env data addr)
    with assms have safe: "tac_safe (client_receive_into data ctx)" by (intro client_receive_safe) simp_all
    show ?thesis
      using client_recv_total [OF safe, of addr "int (length data)" env jc] assms(2) safe
      by (intro frame [of "client_receive_into data ctx"]) (simp_all add: Reply)
  next
    case (Reply_error env nread)
    then show ?thesis
      using client_recv_total [OF assms(1), of None nread env jc False] assms
      by (intro frame [of ctx]) simp_all
  next
    case Socket_closed
    with assms show ?thesis
      by (intro frame [of ctx]) (simp_all add: client_socket_handle_close_cb_def)
  next
    case (Netlink rcs senv nread msgs)
    with assms netlink_messages_total [OF assms(1), of senv msgs jc rcs] show ?thesis
      by (intro frame [of ctx]) (auto simp: table_allocator_client_netlink_recv_cb_def)
  qed
qed

interpretation client: reactive "tac_handle jc" "tac_admissible jc" tac_safe for jc
  by unfold_locales (rule tac_step)

end
