(* ===== verification/Client_Start.thy ===== *)
theory Client_Start
  imports Client
begin

text \<open>
  Starting the client: the command line, the prefix length of a netmask, and \<open>main\<close> up to the
  event loop (\<^verbatim>\<open>table_allocator_client.c\<close>). The options \<open>getopt_long\<close> finds, the conversions of
  \<open>inet_pton\<close>, the interface index, and the outcomes of the set-up calls are arguments.
\<close>

text \<open>\<open>ntohl\<close> on a little-endian machine: the bytes in reverse.\<close>

definition ntohl :: "u32 \<Rightarrow> u32" where
  "ntohl w = push_bit 24 (w AND 0xFF) OR push_bit 8 (w AND 0xFF00)
     OR (drop_bit 8 w AND 0xFF00) OR drop_bit 24 w"

definition compute_prefix_len_4 :: "u32 \<Rightarrow> u8" where
  "compute_prefix_len_4 s_addr = word_of_int (32 - (int (ffs (ntohl s_addr)) - 1))"

record args_env =
  pton4 :: "string \<Rightarrow> u32 option"
  pton6 :: "string \<Rightarrow> u32 list option"
  ar_log_opens :: "string \<Rightarrow> bool"
  nametoindex :: "string \<Rightarrow> u32"

record arg_vars =
  av_address :: "string option"
  av_ifname :: "string option"
  av_log_path :: "string option"
  av_tag :: "string option"
  av_destination :: "string option"
  av_netmask :: "string option"

definition no_args :: arg_vars where
  "no_args = \<lparr>av_address = None, av_ifname = None, av_log_path = None, av_tag = None,
     av_destination = None, av_netmask = None\<rparr>"

text \<open>One option and its argument; \<open>None\<close> is \<open>usage\<close> and \<open>return 0\<close>.\<close>

definition parse_option :: "char \<times> string \<Rightarrow> tac_ctx \<times> arg_vars \<Rightarrow> (tac_ctx \<times> arg_vars) option" where
  "parse_option opt s = (case (opt, s) of ((c, optarg), (ctx, av)) \<Rightarrow>
     if c = CHR ''4'' then Some (ctx\<lparr>tac_addr := (tac_addr ctx)\<lparr>ta_family := AF_INET\<rparr>\<rparr>, av)
     else if c = CHR ''6'' then Some (ctx\<lparr>tac_addr := (tac_addr ctx)\<lparr>ta_family := AF_INET6\<rparr>\<rparr>, av)
     else if c = CHR ''s'' then Some (ctx\<lparr>tac_use_syslog := True\<rparr>, av)
     else if c = CHR ''l'' then Some (ctx, av\<lparr>av_log_path := Some optarg\<rparr>)
     else if c = CHR ''a'' then Some (ctx, av\<lparr>av_address := Some optarg\<rparr>)
     else if c = CHR ''n'' then Some (ctx, av\<lparr>av_netmask := Some optarg\<rparr>)
     else if c = CHR ''i'' then Some (ctx, av\<lparr>av_ifname := Some optarg\<rparr>)
     else if c = CHR ''t'' then Some (ctx, av\<lparr>av_tag := Some optarg\<rparr>)
     else if c = CHR ''r'' then Some (ctx\<lparr>tac_cmd := TA_SHARED_CMD_REL\<rparr>, av)
     else if c = CHR ''d'' then Some (ctx, av\<lparr>av_destination := Some optarg\<rparr>)
     else if c = CHR ''f'' then Some (ctx\<lparr>daemonize := False\<rparr>, av)
     else None)"

fun parse_options :: "(char \<times> string) list \<Rightarrow> tac_ctx \<times> arg_vars \<Rightarrow> (tac_ctx \<times> arg_vars) option" where
  "parse_options [] s = Some s"
| "parse_options (opt # opts) s =
     (case parse_option opt s of None \<Rightarrow> None | Some s' \<Rightarrow> parse_options opts s')"

text \<open>The copies of the strings, each after its length check.\<close>

definition copy_tag :: "string option \<Rightarrow> tac_ctx \<Rightarrow> tac_ctx option res" where
  "copy_tag tag ctx =
     (case tag of
        None \<Rightarrow> Inr (Some ctx)
      | Some t \<Rightarrow>
          if length t \<ge> TA_SHARED_MAX_TAG_SIZE then Inr None
          else bindR (memcpy_buf (ta_tag (tac_addr ctx)) t) (\<lambda>b.
                 Inr (Some (ctx\<lparr>tac_addr := (tac_addr ctx)\<lparr>ta_tag := b\<rparr>\<rparr>))))"

definition copy_ifname :: "string \<Rightarrow> tac_ctx \<Rightarrow> tac_ctx option res" where
  "copy_ifname ifname ctx =
     (if length ifname \<ge> IFNAMSIZ then Inr None
      else bindR (memcpy_buf (ta_ifname (tac_addr ctx)) ifname) (\<lambda>b.
             Inr (Some (ctx\<lparr>tac_addr := (tac_addr ctx)\<lparr>ta_ifname := b\<rparr>\<rparr>))))"

definition copy_destination :: "string \<Rightarrow> tac_ctx \<Rightarrow> tac_ctx option res" where
  "copy_destination dest ctx =
     (if length dest \<ge> TA_SHARED_MAX_ADDR_SIZE then Inr None
      else bindR (memcpy_buf (destination ctx) dest) (\<lambda>b. Inr (Some (ctx\<lparr>destination := b\<rparr>))))"

definition copy_address_str :: "string \<Rightarrow> tac_ctx \<Rightarrow> tac_ctx option res" where
  "copy_address_str address ctx =
     bindR (memcpy_buf (ta_address_str (tac_addr ctx)) address) (\<lambda>b.
       Inr (Some (ctx\<lparr>tac_addr := (tac_addr ctx)\<lparr>ta_address_str := b\<rparr>\<rparr>)))"

definition set_address :: "args_env \<Rightarrow> string \<Rightarrow> string option \<Rightarrow> tac_ctx \<Rightarrow> tac_ctx option res" where
  "set_address env address netmask ctx =
     (if ta_family (tac_addr ctx) = AF_INET then
        case pton4 env address of
          None \<Rightarrow> Inr None
        | Some sin_addr \<Rightarrow>
            (case netmask of
               None \<Rightarrow> Inl Null_pointer
             | Some n \<Rightarrow>
                 case pton4 env n of
                   None \<Rightarrow> Inr None
                 | Some mask4 \<Rightarrow>
                     copy_address_str address (ctx\<lparr>tac_addr := (tac_addr ctx)\<lparr>ta_addr4 := sin_addr,
                       subnet_prefix_len := compute_prefix_len_4 mask4\<rparr>\<rparr>))
      else if ta_family (tac_addr ctx) = AF_INET6 then
        case pton6 env address of
          None \<Rightarrow> Inr None
        | Some sin6_addr \<Rightarrow>
            copy_address_str address (ctx\<lparr>tac_addr := (tac_addr ctx)\<lparr>ta_addr6 := sin6_addr\<rparr>\<rparr>)
      else if length address \<ge> INET6_ADDRSTRLEN then Inr None
      else copy_address_str address ctx)"

definition thenR :: "'a option res \<Rightarrow> ('a \<Rightarrow> 'b option res) \<Rightarrow> 'b option res" where
  "thenR m f = bindR m (\<lambda>r. case r of None \<Rightarrow> Inr None | Some x \<Rightarrow> f x)"

definition parse_cmd_args :: "args_env \<Rightarrow> (char \<times> string) list \<Rightarrow> tac_ctx \<Rightarrow> tac_ctx option res" where
  "parse_cmd_args env opts ctx =
     (case parse_options opts (ctx, no_args) of
        None \<Rightarrow> Inr None
      | Some (ctx, av) \<Rightarrow>
          (case (av_address av, av_ifname av, av_destination av) of
             (Some address, Some ifname, Some dest) \<Rightarrow>
               if ta_family (tac_addr ctx) = AF_INET \<and> av_netmask av = None then Inr None
               else thenR (copy_tag (av_tag av) ctx) (\<lambda>ctx.
                 thenR (copy_ifname ifname ctx) (\<lambda>ctx.
                 thenR (copy_destination dest ctx) (\<lambda>ctx.
                 thenR (set_address env address (av_netmask av) ctx) (\<lambda>ctx.
                   if (case av_log_path av of Some l \<Rightarrow> \<not> ar_log_opens env l | None \<Rightarrow> False) then Inr None
                   else bindR (c_string (ta_ifname (tac_addr ctx))) (\<lambda>name.
                     if nametoindex env name = 0 then Inr None
                     else Inr (Some (ctx\<lparr>tac_addr := (tac_addr ctx)\<lparr>ta_ifidx := nametoindex env name\<rparr>\<rparr>)))))))
           | _ \<Rightarrow> Inr None))"

section \<open>main\<close>

text \<open>The context as \<open>calloc\<close> and the defaults leave it.\<close>

definition default_ctx :: tac_ctx where
  "default_ctx = \<lparr>rt_mnl_socket = False,
     tac_addr = \<lparr>ta_addr4 = 0, ta_addr6 = [0, 0, 0, 0], ta_ifidx = 0, ta_rt_table = 0, ta_lease_expires = 0,
       subnet_prefix_len = 0, ta_family = AF_UNSPEC, rules_added = False, ta_ifname = zero_buf IFNAMSIZ,
       ta_address_str = zero_buf INET6_ADDRSTRLEN, ta_tag = zero_buf TA_SHARED_MAX_TAG_SIZE\<rparr>,
     destination = zero_buf TA_SHARED_MAX_ADDR_SIZE, rcv_buf = zero_buf TA_SHARED_MAX_JSON_LEN,
     tac_use_syslog = False, tac_cmd = TA_SHARED_CMD_REQ, daemonize = True, daemonized = False,
     closing = False, num_failed = 0, tac_trace = []\<rparr>"

record client_env =
  ce_allocs :: "bool list"        \<comment> \<open>the three \<open>calloc\<close>s\<close>
  ce_loop_init :: int
  ce_udp_init :: int
  ce_timer_init :: int
  ce_timer_start :: int
  ce_request_init :: int
  ce_netlink :: netlink_env

text \<open>A failure after the arguments frees the context, which is itself fallible, and exits.\<close>

definition fail_client :: "tac_ctx \<Rightarrow> tac_ctx res" where
  "fail_client ctx = bindR (free_ctx ctx) (\<lambda>_. Inl Exit_failure)"

definition client_main :: "args_env \<Rightarrow> client_env \<Rightarrow> (char \<times> string) list \<Rightarrow> tac_ctx res" where
  "client_main aenv env opts =
     (if False \<in> set (ce_allocs env) then Inl Exit_failure
      else bindR (parse_cmd_args aenv opts default_ctx) (\<lambda>r.
        case r of
          None \<Rightarrow> Inl Exit_failure
        | Some ctx \<Rightarrow>
            if ce_loop_init env \<noteq> 0 then fail_client ctx
            else case ta_allocator_libuv_helpers_configure_unix_handle (ce_udp_init env)
                        (ce_timer_init env) (ce_timer_start env) of (ok, es) \<Rightarrow>
              let ctx = cemit es ctx in
              if \<not> ok then fail_client ctx
              else if ce_request_init env \<noteq> 0 then fail_client ctx
              else let ctx = cemit [Timer_init Request_timeout] ctx in
                if ta_family (tac_addr ctx) = AF_INET then
                  case table_allocator_client_netlink_configure (ce_netlink env) ctx of (ok, ctx) \<Rightarrow>
                    if ok then Inr ctx else fail_client ctx
                else Inr ctx))"

section \<open>Lemmas\<close>

text \<open>Conversions of the C library: what they accept has at most the length of the text form.\<close>

definition pton_ok :: "args_env \<Rightarrow> bool" where
  "pton_ok env \<longleftrightarrow> (\<forall>s a. pton4 env s = Some a \<longrightarrow> length s < INET6_ADDRSTRLEN)
     \<and> (\<forall>s a. pton6 env s = Some a \<longrightarrow> length s < INET6_ADDRSTRLEN)"

definition strings_ok :: "tac_ctx \<Rightarrow> bool" where
  "strings_ok ctx \<longleftrightarrow> terminated IFNAMSIZ (ta_ifname (tac_addr ctx))
     \<and> terminated INET6_ADDRSTRLEN (ta_address_str (tac_addr ctx))
     \<and> terminated TA_SHARED_MAX_TAG_SIZE (ta_tag (tac_addr ctx))
     \<and> terminated TA_SHARED_MAX_ADDR_SIZE (destination ctx)
     \<and> terminated TA_SHARED_MAX_JSON_LEN (rcv_buf ctx)"

text \<open>A step that keeps the strings well-formed and does not fault.\<close>

definition keeps_strings :: "tac_ctx option res \<Rightarrow> bool" where
  "keeps_strings r \<longleftrightarrow> (\<exists>c. r = Inr c \<and> (\<forall>ctx. c = Some ctx \<longrightarrow> strings_ok ctx \<and> \<not> rt_mnl_socket ctx))"

lemma keeps_thenR:
  "keeps_strings m \<Longrightarrow> (\<And>c. m = Inr (Some c) \<Longrightarrow> strings_ok c \<Longrightarrow> \<not> rt_mnl_socket c \<Longrightarrow> keeps_strings (f c)) \<Longrightarrow>
   keeps_strings (thenR m f)"
  by (auto simp: keeps_strings_def thenR_def split: option.splits)

lemma keeps_None: "keeps_strings (Inr None)"
  by (simp add: keeps_strings_def)

lemma keeps_copies:
  assumes "strings_ok ctx" and "\<not> rt_mnl_socket ctx"
  shows "keeps_strings (copy_tag tag ctx)" "keeps_strings (copy_ifname i ctx)"
    "keeps_strings (copy_destination d ctx)"
    "length a < INET6_ADDRSTRLEN \<Longrightarrow> keeps_strings (copy_address_str a ctx)"
proof -
  have cp: "\<exists>b'. memcpy_buf b s = Inr b' \<and> terminated n b'" if "terminated n b" "length s < n" for n b s
    using that by (rule terminated_memcpy)
  have t: "terminated IFNAMSIZ (ta_ifname (tac_addr ctx))" "terminated INET6_ADDRSTRLEN (ta_address_str (tac_addr ctx))"
    "terminated TA_SHARED_MAX_TAG_SIZE (ta_tag (tac_addr ctx))" "terminated TA_SHARED_MAX_ADDR_SIZE (destination ctx)"
    "terminated TA_SHARED_MAX_JSON_LEN (rcv_buf ctx)"
    using assms(1) by (simp_all add: strings_ok_def)
  show "keeps_strings (copy_tag tag ctx)"
    using cp [OF t(3)] t assms(2) by (fastforce simp: copy_tag_def keeps_strings_def strings_ok_def not_le split: option.split)
  show "keeps_strings (copy_ifname i ctx)"
    using cp [OF t(1)] t assms(2) by (fastforce simp: copy_ifname_def keeps_strings_def strings_ok_def not_le)
  show "keeps_strings (copy_destination d ctx)"
    using cp [OF t(4)] t assms(2) by (fastforce simp: copy_destination_def keeps_strings_def strings_ok_def not_le)
  show "keeps_strings (copy_address_str a ctx)" if "length a < INET6_ADDRSTRLEN"
    using cp [OF t(2) that] t assms(2) by (fastforce simp: copy_address_str_def keeps_strings_def strings_ok_def)
qed

lemma keeps_set_address:
  assumes "pton_ok env" and "strings_ok ctx" and "\<not> rt_mnl_socket ctx"
    and "ta_family (tac_addr ctx) = AF_INET \<Longrightarrow> netmask \<noteq> None"
  shows "keeps_strings (set_address env a netmask ctx)"
proof -
  have c: "strings_ok (ctx\<lparr>tac_addr := (tac_addr ctx)\<lparr>ta_addr4 := x, subnet_prefix_len := n\<rparr>\<rparr>)"
    "strings_ok (ctx\<lparr>tac_addr := (tac_addr ctx)\<lparr>ta_addr6 := y\<rparr>\<rparr>)" for x n y
    using assms(2) by (simp_all add: strings_ok_def)
  have p: "pton4 env a = Some x \<Longrightarrow> length a < INET6_ADDRSTRLEN"
    "pton6 env a = Some y \<Longrightarrow> length a < INET6_ADDRSTRLEN" for x y
    using assms(1) by (auto simp: pton_ok_def)
  show ?thesis
    using assms(2-4) c p
    by (auto simp: set_address_def keeps_None not_le intro!: keeps_copies(4) split: option.split)
qed

lemma parse_options_frame:
  assumes "parse_options opts (ctx, av) = Some (ctx', av')"
  shows "strings_ok ctx' = strings_ok ctx \<and> rt_mnl_socket ctx' = rt_mnl_socket ctx"
  using assms
proof (induction opts arbitrary: ctx av)
  case (Cons opt opts)
  then obtain c v where o: "parse_option opt (ctx, av) = Some (c, v)" and r: "parse_options opts (c, v) = Some (ctx', av')"
    by (auto split: option.splits)
  obtain ch arg where "opt = (ch, arg)" by fastforce
  with o have "strings_ok c = strings_ok ctx \<and> rt_mnl_socket c = rt_mnl_socket ctx"
    by (auto simp: parse_option_def strings_ok_def split: if_splits)
  with Cons.IH [OF r] show ?case by simp
qed simp

text \<open>\<open>ntohl\<close>, bit by bit.\<close>

lemma bit_byte_mask: "bit (0xFF :: u32) n = (n < 8)" "bit (0xFF00 :: u32) n = (8 \<le> n \<and> n < 16)"
proof -
  have m: "(0xFF :: u32) = mask 8" "(0xFF00 :: u32) = push_bit 8 (mask 8)"
    by (simp_all add: mask_eq_exp_minus_1 push_bit_eq_mult)
  show "bit (0xFF :: u32) n = (n < 8)" "bit (0xFF00 :: u32) n = (8 \<le> n \<and> n < 16)"
    unfolding m by (auto simp: bit_mask_iff bit_push_bit_iff)
qed

lemma bit_ntohl:
  "bit (ntohl w) n = (n < 32 \<and> bit w (if n < 8 then n + 24 else if n < 16 then n + 8
     else if n < 24 then n - 8 else n - 24))"
proof -
  have big: "\<not> bit w k" if "32 \<le> k" for k using that bit_imp_le_length [of w k] by auto
  show ?thesis
    unfolding ntohl_def bit_or_iff bit_push_bit_iff bit_drop_bit_eq bit_and_iff bit_byte_mask o_def
    using big [of "24 + n"] big [of "n"] by (auto simp: add.commute)
qed

lemma ntohl_ntohl [simp]: "ntohl (ntohl w) = w"
proof (rule bit_word_eqI)
  fix n assume "n < LENGTH(32)"
  then consider "n < 8" | "8 \<le> n" "n < 16" | "16 \<le> n" "n < 24" | "24 \<le> n" "n < 32" by fastforce
  then show "bit (ntohl (ntohl w)) n = bit w n" by cases (simp_all add: bit_ntohl less_diff_conv2)
qed

lemma ntohl_0 [simp]: "ntohl 0 = 0"
  by (simp add: ntohl_def)

lemma ntohl_eq_0 [simp]: "ntohl w = 0 \<longleftrightarrow> w = 0"
  by (metis ntohl_0 ntohl_ntohl)

lemma prefix_len_bit:
  assumes "bit (ntohl m) k" and "\<And>j. j < k \<Longrightarrow> \<not> bit (ntohl m) j"
  shows "unat (compute_prefix_len_4 m) = 32 - k"
proof -
  have "ntohl m \<noteq> 0" using assms(1) by auto
  from ffs_nonzero [OF this] obtain i where
    i: "ffs (ntohl m) = Suc i" "i < 32" "bit (ntohl m) i" "\<And>j. j < i \<Longrightarrow> \<not> bit (ntohl m) j"
    by metis
  then have "i = k" using assms by (meson linorder_neqE_nat)
  then have "compute_prefix_len_4 m = word_of_int (int (32 - k))"
    using i(1,2) by (simp add: compute_prefix_len_4_def of_nat_diff)
  then show ?thesis by (simp add: unsigned_of_nat take_bit_nat_eq_self)
qed
lemma prefix_len_0: "compute_prefix_len_4 0 = 33"
  by (simp add: compute_prefix_len_4_def)

text \<open>The copies, read backwards.\<close>

lemma zero_copy: "memcpy_buf (zero_buf n) s = Inr b \<Longrightarrow> b = s @ zero_buf (n - length s)"
  by (auto simp: memcpy_buf_def zero_buf_def split: if_splits)

lemma thenR_Some_iff: "(thenR m f = Inr (Some y)) = (\<exists>x. m = Inr (Some x) \<and> f x = Inr (Some y))"
  by (auto simp: thenR_def res_simps split: option.splits)

text \<open>The options leave the string fields as \<open>calloc\<close> made them.\<close>

definition empty_strings :: "tac_ctx \<Rightarrow> bool" where
  "empty_strings c \<longleftrightarrow> ta_tag (tac_addr c) = zero_buf TA_SHARED_MAX_TAG_SIZE
     \<and> ta_ifname (tac_addr c) = zero_buf IFNAMSIZ \<and> ta_address_str (tac_addr c) = zero_buf INET6_ADDRSTRLEN
     \<and> destination c = zero_buf TA_SHARED_MAX_ADDR_SIZE"

lemma parse_options_strings:
  "parse_options opts (c, av) = Some (c', av') \<Longrightarrow> empty_strings c \<Longrightarrow> empty_strings c'"
proof (induction opts arbitrary: c av)
  case (Cons opt opts)
  obtain ch arg where opt: "opt = (ch, arg)" by fastforce
  from Cons.prems(1) obtain d v where d: "parse_option opt (c, av) = Some (d, v)" "parse_options opts (d, v) = Some (c', av')"
    by (auto split: option.splits)
  have "empty_strings d"
    using d(1) Cons.prems(2) unfolding opt parse_option_def by (auto simp: empty_strings_def split: if_split_asm)
  with d(2) show ?case by (rule Cons.IH)
qed simp

text \<open>The bytes of the string fields once the arguments are copied.\<close>

definition copied :: "arg_vars \<Rightarrow> tac_ctx \<Rightarrow> bool" where
  "copied av ctx = (case (av_address av, av_ifname av, av_destination av) of
     (Some address, Some ifname, Some dest) \<Rightarrow>
       ta_address_str (tac_addr ctx) = address @ zero_buf (INET6_ADDRSTRLEN - length address)
       \<and> ta_ifname (tac_addr ctx) = ifname @ zero_buf (IFNAMSIZ - length ifname)
       \<and> destination ctx = dest @ zero_buf (TA_SHARED_MAX_ADDR_SIZE - length dest)
       \<and> ta_tag (tac_addr ctx) = (case av_tag av of None \<Rightarrow> zero_buf TA_SHARED_MAX_TAG_SIZE
            | Some t \<Rightarrow> t @ zero_buf (TA_SHARED_MAX_TAG_SIZE - length t))
   | _ \<Rightarrow> False)"

lemma copy_tag_read:
  "copy_tag t c = Inr (Some d) \<Longrightarrow> ta_tag (tac_addr c) = zero_buf TA_SHARED_MAX_TAG_SIZE \<Longrightarrow>
   d = c\<lparr>tac_addr := (tac_addr c)\<lparr>ta_tag := (case t of None \<Rightarrow> zero_buf TA_SHARED_MAX_TAG_SIZE
            | Some t \<Rightarrow> t @ zero_buf (TA_SHARED_MAX_TAG_SIZE - length t))\<rparr>\<rparr>"
  by (auto simp: copy_tag_def res_simps dest!: zero_copy split: option.splits if_splits)

lemma copy_ifname_read:
  "copy_ifname i c = Inr (Some d) \<Longrightarrow> ta_ifname (tac_addr c) = zero_buf IFNAMSIZ \<Longrightarrow>
   d = c\<lparr>tac_addr := (tac_addr c)\<lparr>ta_ifname := i @ zero_buf (IFNAMSIZ - length i)\<rparr>\<rparr>"
  by (auto simp: copy_ifname_def res_simps dest!: zero_copy split: if_splits)

lemma copy_destination_read:
  "copy_destination s c = Inr (Some d) \<Longrightarrow> destination c = zero_buf TA_SHARED_MAX_ADDR_SIZE \<Longrightarrow>
   d = c\<lparr>destination := s @ zero_buf (TA_SHARED_MAX_ADDR_SIZE - length s)\<rparr>"
  by (auto simp: copy_destination_def res_simps dest!: zero_copy split: if_splits)

lemma set_address_read:
  assumes "set_address env a n c = Inr (Some d)" and "ta_address_str (tac_addr c) = zero_buf INET6_ADDRSTRLEN"
  shows "ta_address_str (tac_addr d) = a @ zero_buf (INET6_ADDRSTRLEN - length a)
    \<and> ta_tag (tac_addr d) = ta_tag (tac_addr c) \<and> ta_ifname (tac_addr d) = ta_ifname (tac_addr c)
    \<and> destination d = destination c \<and> ta_family (tac_addr d) = ta_family (tac_addr c) \<and> tac_cmd d = tac_cmd c
    \<and> (ta_family (tac_addr c) = AF_INET \<longrightarrow> pton4 env a = Some (ta_addr4 (tac_addr d))
        \<and> (\<exists>m k. n = Some m \<and> pton4 env m = Some k \<and> subnet_prefix_len (tac_addr d) = compute_prefix_len_4 k))"
  using assms
  by (auto simp: set_address_def copy_address_str_def res_simps dest!: zero_copy split: if_split_asm option.split_asm)

lemma accepted_arguments:
  assumes "parse_cmd_args env opts default_ctx = Inr (Some ctx)"
  shows "\<exists>c av. parse_options opts (default_ctx, no_args) = Some (c, av) \<and> copied av ctx
    \<and> ta_family (tac_addr ctx) = ta_family (tac_addr c) \<and> tac_cmd ctx = tac_cmd c
    \<and> ta_ifidx (tac_addr ctx) = nametoindex env (cstr (ta_ifname (tac_addr ctx))) \<and> ta_ifidx (tac_addr ctx) \<noteq> 0
    \<and> (ta_family (tac_addr c) = AF_INET \<longrightarrow> (\<exists>a m k. av_address av = Some a \<and> av_netmask av = Some m
        \<and> pton4 env a = Some (ta_addr4 (tac_addr ctx)) \<and> pton4 env m = Some k
        \<and> subnet_prefix_len (tac_addr ctx) = compute_prefix_len_4 k))"
proof -
  from assms obtain c av where o: "parse_options opts (default_ctx, no_args) = Some (c, av)"
    by (auto simp: parse_cmd_args_def split: option.splits)
  have "empty_strings default_ctx" by (simp add: empty_strings_def default_ctx_def)
  with o have e: "empty_strings c" by (rule parse_options_strings)
  from assms o obtain a i s where args: "av_address av = Some a" "av_ifname av = Some i" "av_destination av = Some s"
    by (auto simp: parse_cmd_args_def split: option.split_asm)
  from assms obtain c1 c2 c3 c4 where
    steps: "copy_tag (av_tag av) c = Inr (Some c1)" "copy_ifname i c1 = Inr (Some c2)"
      "copy_destination s c2 = Inr (Some c3)" "set_address env a (av_netmask av) c3 = Inr (Some c4)"
    and last: "c_string (ta_ifname (tac_addr c4)) = Inr (cstr (ta_ifname (tac_addr c4)))"
      "nametoindex env (cstr (ta_ifname (tac_addr c4))) \<noteq> 0"
      "ctx = c4\<lparr>tac_addr := (tac_addr c4)\<lparr>ta_ifidx := nametoindex env (cstr (ta_ifname (tac_addr c4)))\<rparr>\<rparr>"
    by (auto simp: parse_cmd_args_def o args thenR_Some_iff res_simps c_string_def split: if_split_asm)
  note c1 = copy_tag_read [OF steps(1)]
  note c2 = copy_ifname_read [OF steps(2)]
  note c3 = copy_destination_read [OF steps(3)]
  show ?thesis
    using o e c1 c2 c3 set_address_read [OF steps(4)] last args
    by (intro exI [of _ c] exI [of _ av]) (auto simp: empty_strings_def copied_def)
qed

lemma parse_cmd_args_safe:
  assumes "pton_ok env"
  shows "keeps_strings (parse_cmd_args env opts default_ctx)"
proof (cases "parse_options opts (default_ctx, no_args)")
  case None
  then show ?thesis by (simp add: parse_cmd_args_def keeps_None)
next
  case (Some s)
  then obtain c av where o: "parse_options opts (default_ctx, no_args) = Some (c, av)" by (cases s) simp
  have "strings_ok default_ctx" "\<not> rt_mnl_socket default_ctx"
    by (simp_all add: strings_ok_def default_ctx_def terminated_zero_buf size_defs)
  with parse_options_frame [OF o] have c: "strings_ok c" "\<not> rt_mnl_socket c" by simp_all
  have last: "keeps_strings
      (bindR (c_string (ta_ifname (tac_addr d))) (\<lambda>name.
         if nametoindex env name = 0 then Inr None
         else Inr (Some (d\<lparr>tac_addr := (tac_addr d)\<lparr>ta_ifidx := nametoindex env name\<rparr>\<rparr>))))"
    if "strings_ok d" "\<not> rt_mnl_socket d" for d
    using that by (auto simp: keeps_strings_def strings_ok_def c_string_terminated)
  have addr: "keeps_strings (set_address env a n d)"
    if "strings_ok d" "\<not> rt_mnl_socket d" "ta_family (tac_addr d) = AF_INET \<Longrightarrow> n \<noteq> None" for a n d
    using keeps_set_address [OF assms that] .
  have fam: "ta_family (tac_addr d) = ta_family (tac_addr c)"
    if "copy_tag t c = Inr (Some c1)" "copy_ifname i c1 = Inr (Some c2)" "copy_destination s c2 = Inr (Some d)" for t i s c1 c2 d
    using that by (auto simp: copy_tag_def copy_ifname_def copy_destination_def res_simps split: option.splits if_splits)
  show ?thesis
    unfolding parse_cmd_args_def o
    using c fam by (auto split: option.split intro!: keeps_None keeps_thenR keeps_copies last addr)
qed

text \<open>What \<open>main\<close> needs of the system to reach the event loop.\<close>

definition setup_ok :: "client_env \<Rightarrow> bool" where
  "setup_ok env \<longleftrightarrow> False \<notin> set (ce_allocs env) \<and> ce_loop_init env = 0 \<and> ce_udp_init env = 0
     \<and> ce_timer_init env = 0 \<and> ce_timer_start env = 0 \<and> ce_request_init env = 0
     \<and> nl_open (ce_netlink env) \<and> 0 \<le> nl_bind (ce_netlink env) \<and> nl_timer_init (ce_netlink env) = 0
     \<and> nl_udp_init (ce_netlink env) = 0 \<and> nl_udp_open (ce_netlink env) = 0 \<and> nl_recv_start (ce_netlink env) = 0"

lemma netlink_configure_frame:
  "table_allocator_client_netlink_configure env ctx = (ok, ctx') \<Longrightarrow>
   \<exists>es b. ctx' = cemit es (ctx\<lparr>rt_mnl_socket := b\<rparr>) \<and> (ok \<longrightarrow> b)"
proof -
  assume "table_allocator_client_netlink_configure env ctx = (ok, ctx')"
  moreover have "ctx = cemit [] (ctx\<lparr>rt_mnl_socket := rt_mnl_socket ctx\<rparr>)" by (simp add: cemit_def)
  moreover have "cemit xs (cemit ys c) = cemit (ys @ xs) c" for xs ys c by (simp add: cemit_def)
  moreover have "cemit xs ctx = cemit xs (ctx\<lparr>rt_mnl_socket := rt_mnl_socket ctx\<rparr>)" for xs by simp
  ultimately show ?thesis
    by (simp only: table_allocator_client_netlink_configure_def Let_def prod.inject split: if_split_asm) metis+
qed

lemma strings_safe:
  "strings_ok c \<Longrightarrow> ta_family (tac_addr c) = AF_INET \<Longrightarrow> tac_safe (cemit es (c\<lparr>rt_mnl_socket := True\<rparr>))"
  by (simp add: strings_ok_def tac_safe_def cemit_def)

section \<open>Properties\<close>

text \<open>C32: the prefix length of a contiguous netmask is its number of ones; of any other
  netmask but 0 it is 32 less the index of the lowest set bit (a mask with holes is accepted); of
  0.0.0.0 it is 33.\<close>

theorem prefix_len_of_netmask:
  shows "(0 < n \<and> n \<le> 32 \<longrightarrow> unat (compute_prefix_len_4 (ntohl (NOT (mask (32 - n))))) = n)
    \<and> (bit (ntohl m) k \<and> (\<forall>j<k. \<not> bit (ntohl m) j) \<longrightarrow> unat (compute_prefix_len_4 m) = 32 - k)
    \<and> compute_prefix_len_4 0 = 33"
proof (intro conjI impI)
  assume n: "0 < n \<and> n \<le> 32"
  have "bit (NOT (mask (32 - n)) :: u32) (32 - n)" using n by (simp add: bit_not_iff bit_mask_iff)
  moreover have "\<not> bit (NOT (mask (32 - n)) :: u32) j" if "j < 32 - n" for j
    using n that by (simp add: bit_not_iff bit_mask_iff)
  ultimately have "unat (compute_prefix_len_4 (ntohl (NOT (mask (32 - n))))) = 32 - (32 - n)"
    by (intro prefix_len_bit) simp_all
  with n show "unat (compute_prefix_len_4 (ntohl (NOT (mask (32 - n))))) = n" by simp
qed (simp_all add: prefix_len_bit prefix_len_0)

text \<open>C30: the command line is read without a fault, whatever its options are; when it is
  accepted, the string fields hold exactly the arguments, terminated, the interface exists, and for
  IPv4 the address and the prefix length are those of the address and netmask arguments.\<close>

theorem command_line_read:
  assumes "pton_ok env"
  shows "\<exists>r. parse_cmd_args env opts default_ctx = Inr r \<and> (\<forall>ctx. r = Some ctx \<longrightarrow>
    strings_ok ctx \<and> ta_ifidx (tac_addr ctx) = nametoindex env (cstr (ta_ifname (tac_addr ctx)))
    \<and> ta_ifidx (tac_addr ctx) \<noteq> 0
    \<and> (\<exists>c av. parse_options opts (default_ctx, no_args) = Some (c, av) \<and> copied av ctx
        \<and> ta_family (tac_addr ctx) = ta_family (tac_addr c) \<and> tac_cmd ctx = tac_cmd c
        \<and> (ta_family (tac_addr c) = AF_INET \<longrightarrow> (\<exists>a m k. av_address av = Some a \<and> av_netmask av = Some m
            \<and> pton4 env a = Some (ta_addr4 (tac_addr ctx)) \<and> pton4 env m = Some k
            \<and> subnet_prefix_len (tac_addr ctx) = compute_prefix_len_4 k))))"
proof -
  obtain r where r: "parse_cmd_args env opts default_ctx = Inr r" "\<And>ctx. r = Some ctx \<Longrightarrow> strings_ok ctx"
    using parse_cmd_args_safe [OF assms, of opts] unfolding keeps_strings_def by blast
  show ?thesis
    using r accepted_arguments [of env opts] by (intro exI [of _ r] conjI allI impI) metis+
qed

text \<open>C31: an accepted IPv4 command line and set-up calls that succeed bring the client to its
  event loop, in a state from which it never stops. A rejected command line exits; but once it is
  accepted, a set-up call that fails does not: the clean-up closes the netlink socket whether it was
  never opened (a null pointer) or has been closed already.\<close>

theorem client_startup:
  assumes "pton_ok aenv" and "False \<notin> set (ce_allocs env)"
  shows "(\<forall>c. parse_cmd_args aenv opts default_ctx = Inr (Some c) \<and> setup_ok env \<and> ta_family (tac_addr c) = AF_INET
      \<longrightarrow> (\<exists>ctx. client_main aenv env opts = Inr ctx))
    \<and> (\<forall>ctx. client_main aenv env opts = Inr ctx \<and> ta_family (tac_addr ctx) = AF_INET \<longrightarrow> tac_safe ctx)
    \<and> (\<forall>h. client_main aenv env opts = Inl h \<longrightarrow>
        (if parse_cmd_args aenv opts default_ctx = Inr None then h = Exit_failure
         else h = Null_pointer \<or> h = Use_after_free))"
proof -
  have keeps: "keeps_strings (parse_cmd_args aenv opts default_ctx)" using assms(1) by (rule parse_cmd_args_safe)
  then have c: "strings_ok c \<and> \<not> rt_mnl_socket c" if "parse_cmd_args aenv opts default_ctx = Inr (Some c)" for c
    using that by (auto simp: keeps_strings_def)
  have fail: "fail_client c = Inl (if \<not> rt_mnl_socket c then Null_pointer
      else if Mnl_close \<in> set (tac_trace c) then Use_after_free else Exit_failure)" for c
    by (simp add: fail_client_def free_ctx_def table_allocator_client_netlink_stop_def Let_def)
  have closed: "rt_mnl_socket d \<longrightarrow> Mnl_close \<in> set (tac_trace d)"
    if "table_allocator_client_netlink_configure nenv ctx = (False, d)" "\<not> rt_mnl_socket ctx" for nenv ctx d
    using that by (auto simp: table_allocator_client_netlink_configure_def Let_def split: if_split_asm)
  obtain r where r: "parse_cmd_args aenv opts default_ctx = Inr r"
    using keeps by (auto simp: keeps_strings_def)
  note main = client_main_def ta_allocator_libuv_helpers_configure_unix_handle_def Let_def
  have "\<exists>ctx. client_main aenv env opts = Inr ctx"
    if "r = Some c" "setup_ok env" "ta_family (tac_addr c) = AF_INET" for c
    using that r by (simp add: main setup_ok_def table_allocator_client_netlink_configure_def)
  moreover have "tac_safe ctx" if ctx: "client_main aenv env opts = Inr ctx" "ta_family (tac_addr ctx) = AF_INET" for ctx
  proof -
    obtain d where d: "r = Some d" using ctx r by (cases r) (simp_all add: main split: if_split_asm)
    define es where "es = [Udp_init Unix_socket, Timer_init Unix_socket_timeout, Timer_start Unix_socket_timeout 0 0,
      Timer_init Request_timeout]"
    from ctx(1) have n: "(if ta_family (tac_addr d) = AF_INET
        then table_allocator_client_netlink_configure (ce_netlink env) (cemit es d) = (True, ctx)
        else ctx = cemit es d)"
      by (simp add: main r d fail es_def split: if_split_asm prod.split_asm)
    then have fam: "ta_family (tac_addr d) = AF_INET" using ctx(2) by (metis cemit_simps(2))
    with n netlink_configure_frame obtain es' where "ctx = cemit es' ((cemit es d)\<lparr>rt_mnl_socket := True\<rparr>)"
      by (metis (full_types))
    then have "ctx = cemit (es @ es') (d\<lparr>rt_mnl_socket := True\<rparr>)" by (simp add: cemit_def)
    with fam c r d show ?thesis using strings_safe by simp
  qed
  moreover have "if r = None then h = Exit_failure else h = Null_pointer \<or> h = Use_after_free"
    if h: "client_main aenv env opts = Inl h" for h
  proof (cases r)
    case (Some d)
    then have "\<not> rt_mnl_socket d" using c r by blast
    then show ?thesis
      using h r Some assms(2) closed
      by (auto simp: main fail split: if_split_asm prod.split_asm)
  qed (use h r assms(2) in \<open>simp add: main\<close>)
  ultimately show ?thesis using r by auto
qed

section \<open>Witnesses\<close>

theorem prefix_len_of_netmask_witness:
  "unat (compute_prefix_len_4 0x00FFFFFF) = 24 \<and> unat (compute_prefix_len_4 0x00FF00FF) = 24"
proof -
  have "ntohl (NOT (mask (32 - 24))) = 0x00FFFFFF" by (simp add: ntohl_def mask_eq_exp_minus_1)
  moreover have "ntohl 0x00FF00FF = 0xFF00FF00" by (simp add: ntohl_def)
  moreover have "\<not> bit (0xFF00FF00 :: u32) j" if "j < 8" for j
  proof -
    have "j = 0 \<or> j = 1 \<or> j = 2 \<or> j = 3 \<or> j = 4 \<or> j = 5 \<or> j = 6 \<or> j = 7" using that by linarith
    then show ?thesis by (elim disjE) simp_all
  qed
  ultimately show ?thesis
    using prefix_len_of_netmask [of 24 "0x00FF00FF" 8] by simp
qed

definition example_args :: args_env where
  "example_args = \<lparr>pton4 = (\<lambda>s. if s = ''10.0.0.2'' then Some 0x0200000A
       else if s = ''255.255.255.0'' then Some 0x00FFFFFF else None),
     pton6 = (\<lambda>s. None), ar_log_opens = (\<lambda>s. True), nametoindex = (\<lambda>s. if s = ''eth1'' then 2 else 0)\<rparr>"

definition example_opts :: "(char \<times> string) list" where
  "example_opts = [(CHR ''4'', ''''), (CHR ''a'', ''10.0.0.2''), (CHR ''n'', ''255.255.255.0''),
     (CHR ''i'', ''eth1''), (CHR ''d'', ''table_allocator'')]"

definition example_setup :: client_env where
  "example_setup = \<lparr>ce_allocs = [True, True, True], ce_loop_init = 0, ce_udp_init = 0, ce_timer_init = 0,
     ce_timer_start = 0, ce_request_init = 0, ce_netlink = \<lparr>nl_open = True, nl_bind = 0, nl_timer_init = 0,
       nl_udp_init = 0, nl_fd = 5, nl_udp_open = 0, nl_recv_start = 0\<rparr>\<rparr>"

lemma example_pton: "pton_ok example_args"
  by (simp add: pton_ok_def example_args_def size_defs)

lemma example_accepted:
  "\<exists>c. parse_cmd_args example_args example_opts default_ctx = Inr (Some c) \<and> ta_family (tac_addr c) = AF_INET
     \<and> unat (subnet_prefix_len (tac_addr c)) = 24 \<and> cstr (ta_address_str (tac_addr c)) = ''10.0.0.2''"
proof -
  have "compute_prefix_len_4 0xFFFFFF = 24"
    by (simp add: compute_prefix_len_4_def ntohl_def ffs_def upt_rec)
  moreover have "NUL \<in> set (zero_buf n) \<longleftrightarrow> 0 < n" for n by (simp add: zero_buf_def)
  moreover have "cstr (ch # s) = (if ch = NUL then [] else ch # cstr s)" for ch s by (simp add: cstr_def)
  ultimately show ?thesis
    by (simp add: parse_cmd_args_def example_opts_def parse_option_def no_args_def thenR_def copy_tag_def copy_ifname_def
      copy_destination_def set_address_def copy_address_str_def example_args_def default_ctx_def memcpy_zero_buf
      c_string_def cstr_simps size_defs af_defs)
qed

theorem command_line_read_witness:
  "\<exists>ctx. parse_cmd_args example_args example_opts default_ctx = Inr (Some ctx) \<and> strings_ok ctx
     \<and> ta_ifidx (tac_addr ctx) \<noteq> 0"
  using command_line_read [OF example_pton, of example_opts] example_accepted by auto

theorem client_startup_witness:
  "\<exists>ctx. client_main example_args example_setup example_opts = Inr ctx"
proof -
  have "setup_ok example_setup" by (simp add: setup_ok_def example_setup_def)
  moreover have "False \<notin> set (ce_allocs example_setup)" by (simp add: example_setup_def)
  ultimately show ?thesis
    using client_startup [OF example_pton, of example_setup example_opts] example_accepted by blast
qed

end
