(* ===== verification/Client_Leases.thy ===== *)
theory Client_Leases
  imports Client
begin

text \<open>
  What the client promises: it never stops on the events of its environment, it gives up after
  five tries and only before its first lease, it installs and renews what the server grants, and it
  ends a lease when its address or interface goes. Replies that arrive after the lease are what the
  code does not handle.
\<close>

section \<open>Lemmas\<close>

text \<open>The effects of one retransmission.\<close>

definition resend_effects :: "jsonc \<Rightarrow> tac_ctx \<Rightarrow> send_env \<Rightarrow> effect list" where
  "resend_effects jc ctx env =
     (if table_allocator_shared_json_create_req (se_alloc env) (cstr (ta_address_str (tac_addr ctx)))
           (cstr (ta_ifname (tac_addr ctx))) (cstr (ta_tag (tac_addr ctx))) (ta_family (tac_addr ctx))
           TA_SHARED_CMD_REQ = None
      then [Timer_start Request_timeout REQUEST_RETRANSMISSION_MS 0]
      else request_effects jc env ctx TA_SHARED_CMD_REQ)"

lemma request_timer_step:
  assumes "tac_safe ctx" and "se_timer env = 0" and "ta_rt_table (tac_addr ctx) = 0"
  shows "client_request_timeout_handle_cb jc env ctx = Inr
    (let ctx1 = ctx\<lparr>num_failed := num_failed ctx + 1\<rparr> in
     if num_failed ctx + 1 < 5 then cemit (resend_effects jc ctx env) ctx1
     else (cemit [Print_table 0, Loop_stop] ctx1)\<lparr>closing := True\<rparr>)"
proof -
  let ?c = "ctx\<lparr>num_failed := num_failed ctx + 1\<rparr>"
  have "tac_safe ?c" using assms(1) by (simp add: tac_safe_def)
  from send_request_eq [OF this assms(2), of jc TA_SHARED_CMD_REQ]
  have "table_allocator_client_send_request jc env ?c TA_SHARED_CMD_REQ = Inr (cemit (resend_effects jc ctx env) ?c)"
    by (simp add: resend_effects_def request_effects_def request_text_def)
  then show ?thesis
    using assms(3) by (simp add: client_request_timeout_handle_cb_def table_allocator_client_check_fail_count_def
        NUM_FAILED_LIMIT_def Let_def)
qed

text \<open>Unanswered retransmissions below the limit.\<close>

lemma resend_loop:
  assumes "tac_safe ctx" and "ta_rt_table (tac_addr ctx) = 0" and "list_all (\<lambda>e. se_timer e = 0) envs"
    and "unat (num_failed ctx) + length envs < 5"
  shows "foldR (\<lambda>e. tac_handle jc (Request_timer e)) envs ctx = Inr
    (cemit (concat (map (resend_effects jc ctx) envs)) (ctx\<lparr>num_failed := num_failed ctx + of_nat (length envs)\<rparr>))"
  using assms
proof (induction envs arbitrary: ctx)
  case Nil
  then show ?case by simp
next
  case (Cons e envs)
  let ?c = "cemit (resend_effects jc ctx e) (ctx\<lparr>num_failed := num_failed ctx + 1\<rparr>)"
  have n: "unat (num_failed ctx + 1) = Suc (unat (num_failed ctx))"
    using Cons.prems(4) by (simp add: unat_word_ariths)
  then have less: "num_failed ctx + 1 < 5" using Cons.prems(4) by (simp add: word_less_nat_alt)
  have "tac_safe ?c" using Cons.prems(1) tac_safe_frame [of ?c ctx] by simp
  moreover have "resend_effects jc ?c = resend_effects jc ctx"
    by (simp add: fun_eq_iff resend_effects_def request_effects_def request_text_def)
  ultimately have "foldR (\<lambda>e. tac_handle jc (Request_timer e)) envs ?c = Inr
      (cemit (concat (map (resend_effects jc ctx) envs)) (?c\<lparr>num_failed := num_failed ?c + of_nat (length envs)\<rparr>))"
    using Cons.IH [of ?c] Cons.prems(2-4) n by (simp del: tac_handle.simps)
  moreover have "tac_handle jc (Request_timer e) ctx = Inr ?c"
    using request_timer_step [OF Cons.prems(1) _ Cons.prems(2)] Cons.prems(3) less by simp
  ultimately show ?case
    by (simp del: tac_handle.simps) (simp add: cemit_def algebra_simps)
qed

lemma renewal_small:
  assumes "0 \<le> uint e - now" and "uint e - now < 2 ^ 16"
  shows "unat (renewal_timeout e now) = nat ((uint e - now) div 2) * 1000"
proof -
  obtain d where d: "uint e - now = int d" "d < 2 ^ 16"
    using assms by (metis nat_0_le nat_less_numeral_power_cancel_iff)
  let ?t = "word_of_nat d :: u32"
  have t: "word_of_int (uint e - now) = ?t" by (simp add: d(1))
  have ud: "unat ?t = d" using d(2) by (simp add: unsigned_of_nat take_bit_nat_eq_self)
  have "unat (?t div 2) = d div 2" by (simp add: unat_div ud)
  moreover have "d div 2 * 1000 < 2 ^ 32" using d(2) by simp
  ultimately have "unat (?t div 2 * 1000) = d div 2 * 1000" by (simp add: unat_word_ariths)
  then show ?thesis by (simp add: renewal_timeout_def Let_def t d(1) nat_div_distrib)
qed

lemma renewal_late:
  assumes "0 < d" and "d < 2 ^ 16"
  shows "unat (renewal_timeout e (uint e + int d)) = 2 ^ 32 - 1000 * ((d + 1) div 2)"
proof -
  let ?t = "word_of_int (- int d) :: u32"
  have "uint ?t = 2 ^ 32 - int d"
  proof -
    have "uint ?t = (- int d) mod 2 ^ 32" unfolding uint_word_of_int by simp
    also have "\<dots> = (- int d + 1 * 2 ^ 32) mod 2 ^ 32" unfolding mod_mult_self1 ..
    also have "\<dots> = 2 ^ 32 - int d" using assms by (subst mod_pos_pos_trivial) simp_all
    finally show ?thesis .
  qed
  then have "unat ?t = 2 ^ 32 - d" by (simp add: unat_eq_nat_uint nat_diff_distrib)
  then have half: "unat (?t div 2) = 2 ^ 31 - (d + 1) div 2" using assms by (simp add: unat_div)
  have "unat (?t div 2 * 1000) = (2 ^ 31 - (d + 1) div 2) * 1000 mod 2 ^ 32"
  proof -
    have "unat (a * b) = unat a * unat b mod 2 ^ 32" for a b :: u32 by (simp add: unat_word_ariths(2))
    then show ?thesis by (simp only: half) simp
  qed
  also have "(2 ^ 31 - (d + 1) div 2) * 1000 = (2 ^ 32 - 1000 * ((d + 1) div 2)) + 499 * 2 ^ 32"
    using assms by simp
  also have "\<dots> mod 2 ^ 32 = (2 ^ 32 - 1000 * ((d + 1) div 2)) mod 2 ^ 32"
    by (rule mod_mult_self1)
  also have "\<dots> = 2 ^ 32 - 1000 * ((d + 1) div 2)"
    using assms by (intro mod_less) simp
  finally show ?thesis by (simp add: renewal_timeout_def Let_def)
qed

text \<open>A reply of the server as the client reads it; a lease is one with a table.\<close>

lemma reply_received_buf:
  assumes "jsonc_ok jc" and "terminated TA_SHARED_MAX_JSON_LEN (rcv_buf ctx)" and "\<not> closing ctx"
    and "data = flat_text (response_fields t e)" and "t < 2 ^ 31" and "e < 2 ^ 31"
  shows "tac_handle jc (Reply env data (Some sender)) ctx =
    (let ctx' = (client_receive_into data ctx)\<lparr>tac_addr := (tac_addr ctx)\<lparr>ta_lease_expires := e\<rparr>\<rparr>
     in if t = 0 then Inr (retransmit_later ctx') else accept_lease env (Some sender) t ctx')"
proof -
  let ?c = "client_receive_into data ctx"
  have len: "length data < TA_SHARED_MAX_JSON_LEN" "data \<noteq> []"
    using response_text_length [of t e] assms(4) by (simp_all add: size_defs flat_text_def)
  have rcv: "terminated TA_SHARED_MAX_JSON_LEN (rcv_buf ?c)" using client_receive_terminated [OF assms(2) len(1)] .
  have buf: "rcv_buf ?c = data @ drop (length data) (rcv_buf ctx)" "tac_addr ?c = tac_addr ctx" "closing ?c = closing ctx"
    using len(1) by (simp_all add: client_receive_into_def client_socket_alloc_cb_def)
  have str: "c_string (rcv_buf ?c) = Inr (data @ cstr (drop (length data) (rcv_buf ctx)))"
  proof -
    have "NUL \<notin> set data" using flat_text_no_nul [OF response_flat] assms(4) by simp
    then have "cstr (rcv_buf ?c) = data @ cstr (drop (length data) (rcv_buf ctx))"
      unfolding buf(1) by (rule cstr_append)
    with rcv show ?thesis using c_string_terminated by metis
  qed
  show ?thesis
    using len assms(3,5,6) parse_response_text [OF assms(1), of t e]
    by (simp add: client_socket_recv_cb_def str [unfolded buf(1)] buf assms(4) [symmetric] reply_int_id
        cmd_defs Let_def)
qed

lemma reply_received:
  assumes "jsonc_ok jc" and "tac_safe ctx" and "\<not> closing ctx"
    and "data = flat_text (response_fields t e)" and "t < 2 ^ 31" and "e < 2 ^ 31"
  shows "tac_handle jc (Reply env data (Some sender)) ctx =
    (let ctx' = (client_receive_into data ctx)\<lparr>tac_addr := (tac_addr ctx)\<lparr>ta_lease_expires := e\<rparr>\<rparr>
     in if t = 0 then Inr (retransmit_later ctx') else accept_lease env (Some sender) t ctx')"
  using assms(2) by (intro reply_received_buf assms(1,3-6)) (simp add: tac_safe_def)

lemma reply_read:
  assumes "jsonc_ok jc" and "tac_safe ctx" and "\<not> closing ctx"
    and "data = flat_text (response_fields t e)" and "t \<noteq> 0" and "t < 2 ^ 31" and "e < 2 ^ 31"
  shows "tac_handle jc (Reply env data (Some sender)) ctx =
    accept_lease env (Some sender) t ((client_receive_into data ctx)\<lparr>tac_addr := (tac_addr ctx)\<lparr>ta_lease_expires := e\<rparr>\<rparr>)"
  unfolding reply_received [OF assms(1-4,6,7)] using assms(5) by (simp add: Let_def)

lemma rules_sent_all: "rules_ok rcs \<Longrightarrow> take (rules_sent rcs) (lease_rules a t) = lease_rules a t"
  by (simp add: rules_sent_def rules_ok_iff lease_rules_def numeral_3_eq_3)

text \<open>The effects of an accepted lease.\<close>

definition lease_effects :: "reply_env \<Rightarrow> u32 \<Rightarrow> tac_ctx \<Rightarrow> effect list" where
  "lease_effects env t ctx = [Print_table t]
     @ (if \<not> daemonized ctx \<and> daemonize ctx then [Daemonize] else [])
     @ (if rules_added (tac_addr ctx) then []
        else map Rule_request (lease_rules ((tac_addr ctx)\<lparr>ta_rt_table := t\<rparr>) RTM_NEWRULE))
     @ [Timer_start Request_timeout (unat (renewal_timeout (ta_lease_expires (tac_addr ctx)) (re_tv_sec env))) 0]"

lemma accept_lease_eq:
  assumes "re_daemon env = 0" and "rt_mnl_socket ctx" and "rules_ok (re_rules env)"
  shows "accept_lease env (Some sender) t ctx = Inr (ctx\<lparr>
    tac_addr := (tac_addr ctx)\<lparr>ta_rt_table := t, rules_added := True\<rparr>, daemonized := True, num_failed := 0,
    tac_trace := tac_trace ctx @ lease_effects env t ctx\<rparr>)"
proof (cases "rules_added (tac_addr ctx)")
  case True
  then have "(tac_addr ctx)\<lparr>ta_rt_table := t, rules_added := True\<rparr> = (tac_addr ctx)\<lparr>ta_rt_table := t\<rparr>" by simp
  with True assms(1) show ?thesis
    by (simp add: accept_lease_def lease_effects_def Let_def cemit_def)
next
  case False
  let ?c = "ctx\<lparr>tac_addr := (tac_addr ctx)\<lparr>ta_rt_table := t\<rparr>, num_failed := 0\<rparr>"
  have "table_allocator_client_netlink_update_rules (re_rules env) RTM_NEWRULE (cemit es ?c) =
      Inr ((cemit (map Rule_request (lease_rules ((tac_addr ctx)\<lparr>ta_rt_table := t\<rparr>) RTM_NEWRULE)) (cemit es ?c))
        \<lparr>tac_addr := (tac_addr ctx)\<lparr>ta_rt_table := t, rules_added := True\<rparr>\<rparr>)" for es
    using update_rules_eq [of "cemit es ?c" RTM_NEWRULE "re_rules env"] False assms(2,3) rules_sent_all [OF assms(3)]
    by simp
  then show ?thesis
    using False assms(1) by (simp add: accept_lease_def lease_effects_def Let_def cemit_def)
qed

text \<open>The parts of a socket name can be read off it.\<close>

lemma client_socket_name_inject:
  assumes "length i < IFNAMSIZ" "length a < INET6_ADDRSTRLEN" "f \<in> {AF_INET, AF_INET6, AF_UNSPEC}"
    and "length i' < IFNAMSIZ" "length a' < INET6_ADDRSTRLEN" "f' \<in> {AF_INET, AF_INET6, AF_UNSPEC}"
    and "CHR ''-'' \<notin> set a" "CHR ''-'' \<notin> set a'" "client_socket_name i a f = client_socket_name i' a' f'"
  shows "i = i' \<and> a = a' \<and> f = f'"
proof -
  have dec: "length (dec (unat g)) \<le> 2" if "g \<in> {AF_INET, AF_INET6, AF_UNSPEC}" for g
    using that by (auto simp: af_defs dec.simps)
  have name: "client_socket_name j b g = j @ ''-'' @ b @ ''-'' @ dec (unat g)"
    if "length j < IFNAMSIZ" "length b < INET6_ADDRSTRLEN" "g \<in> {AF_INET, AF_INET6, AF_UNSPEC}" for j b g
    using that dec [OF that(3)] by (simp add: client_socket_name_def UNIX_SOCKET_ADDR_SIZE_def size_defs)
  have split: "x = x' \<and> y = y'" if "x @ CHR ''-'' # y = x' @ CHR ''-'' # y'" "CHR ''-'' \<notin> set y" "CHR ''-'' \<notin> set y'"
    for x x' y y' :: string
    using that by (auto simp: append_eq_append_conv2 append_eq_Cons_conv Cons_eq_append_conv)
  have "(i @ CHR ''-'' # a) @ CHR ''-'' # dec (unat f) = (i' @ CHR ''-'' # a') @ CHR ''-'' # dec (unat f')"
    using assms by (simp add: name)
  from split [OF this dec_special(2) dec_special(2)]
  have "i @ CHR ''-'' # a = i' @ CHR ''-'' # a'" "dec (unat f) = dec (unat f')" by simp_all
  with split [OF this(1) assms(7,8)] show ?thesis by (simp add: word_unat_eq_iff)
qed

section \<open>Properties\<close>

text \<open>C11: an IPv4 client with terminated strings never stops on admissible events (named
  senders, replies shorter than the buffer that are objects if they are JSON, timers and \<open>daemon\<close> that
  work), whatever the socket, the clock and the netlink socket answer.\<close>

theorem client_never_stops:
  assumes "tac_safe s" and "runs (tac_handle jc) (tac_admissible jc) s es t"
  shows "tac_safe t \<and> (\<forall>e. tac_admissible jc t e \<longrightarrow>
    (\<exists>u. runs (tac_handle jc) (tac_admissible jc) s (es @ [e]) u \<and> tac_safe u))"
  using client.reached [OF assms(2,1)] client.not_stuck [OF assms(2,1)] by blast

text \<open>C16: a client without a lease retransmits on each of the first four unanswered timers,
  and on the fifth prints table 0, stops the loop and is closing.\<close>

theorem gives_up_after_five:
  assumes "tac_safe ctx" and "ta_rt_table (tac_addr ctx) = 0" and "num_failed ctx = 0"
    and "list_all (\<lambda>e. se_timer e = 0) envs" and "length envs \<le> 5"
  shows "\<exists>ctx'. foldR (\<lambda>e. tac_handle jc (Request_timer e)) envs ctx = Inr ctx'
    \<and> unat (num_failed ctx') = length envs
    \<and> tac_trace ctx' = tac_trace ctx @ concat (map (resend_effects jc ctx) (take 4 envs))
        @ (if length envs = 5 then [Print_table 0, Loop_stop] else [])
    \<and> closing ctx' = (closing ctx \<or> length envs = 5)"
proof (cases "length envs = 5")
  case False
  then have len: "length envs < 5" using assms(5) by simp
  have "unat (of_nat (length envs) :: u8) = length envs" using len by (simp add: unsigned_of_nat take_bit_nat_eq_self)
  then show ?thesis
    using resend_loop [OF assms(1,2,4), of jc] assms(3) len by (auto simp: cemit_def)
next
  case True
  then obtain xs e where envs: "envs = xs @ [e]" and xs: "length xs = 4" by (cases envs rule: rev_cases) simp_all
  let ?c = "cemit (concat (map (resend_effects jc ctx) xs)) (ctx\<lparr>num_failed := num_failed ctx + of_nat (length xs)\<rparr>)"
  have "foldR (\<lambda>e. tac_handle jc (Request_timer e)) xs ctx = Inr ?c"
    using assms(4) by (intro resend_loop [OF assms(1,2)]) (simp_all add: envs xs assms(3))
  moreover have "tac_safe ?c" using assms(1) tac_safe_frame [of ?c ctx] by simp
  then have "tac_handle jc (Request_timer e) ?c = Inr ((cemit [Print_table 0, Loop_stop] (?c\<lparr>num_failed := 5\<rparr>))\<lparr>closing := True\<rparr>)"
    using request_timer_step [of ?c e jc] assms(2-4) by (simp add: envs xs)
  ultimately show ?thesis
    by (simp add: envs foldR_append xs cemit_def del: tac_handle.simps)
qed

text \<open>C12: a reply with a lease that is still alive makes the client hold the table, print it,
  daemonise if it has not, add the rules if it has not, and arm the renewal at half of the
  remaining time; nothing overflows for leases of the 16-bit time-outs the server can be configured
  with.\<close>

theorem reply_installs_lease:
  assumes "jsonc_ok jc" and "tac_safe ctx" and "\<not> closing ctx"
    and "t \<noteq> 0" and "t < 2 ^ 31" and "e < 2 ^ 31" and "re_daemon env = 0" and "rules_ok (re_rules env)"
    and "0 \<le> uint e - re_tv_sec env" and "uint e - re_tv_sec env < 2 ^ 16"
  shows "\<exists>ctx'. tac_handle jc (Reply env (flat_text (response_fields t e)) (Some sender)) ctx = Inr ctx'
    \<and> ta_rt_table (tac_addr ctx') = t \<and> ta_lease_expires (tac_addr ctx') = e \<and> num_failed ctx' = 0
    \<and> rules_added (tac_addr ctx') \<and> daemonized ctx' \<and> tac_safe ctx'
    \<and> tac_trace ctx' = tac_trace ctx @ [Print_table t]
        @ (if \<not> daemonized ctx \<and> daemonize ctx then [Daemonize] else [])
        @ (if rules_added (tac_addr ctx) then []
           else map Rule_request (lease_rules ((tac_addr ctx)\<lparr>ta_rt_table := t\<rparr>) RTM_NEWRULE))
        @ [Timer_start Request_timeout (nat ((uint e - re_tv_sec env) div 2) * 1000) 0]"
proof -
  let ?data = "flat_text (response_fields t e)"
  let ?c = "(client_receive_into ?data ctx)\<lparr>tac_addr := (tac_addr ctx)\<lparr>ta_lease_expires := e\<rparr>\<rparr>"
  have len: "length ?data < TA_SHARED_MAX_JSON_LEN"
    using response_text_length [of t e] by (simp add: size_defs)
  have c: "rt_mnl_socket ?c" "tac_addr ?c = (tac_addr ctx)\<lparr>ta_lease_expires := e\<rparr>" "tac_trace ?c = tac_trace ctx"
    "daemonized ?c = daemonized ctx" "daemonize ?c = daemonize ctx"
    using assms(2) by (simp_all add: client_receive_into_def client_socket_alloc_cb_def tac_safe_def)
  define d where "d = ?c\<lparr>tac_addr := (tac_addr ?c)\<lparr>ta_rt_table := t, rules_added := True\<rparr>, daemonized := True,
    num_failed := 0, tac_trace := tac_trace ?c @ lease_effects env t ?c\<rparr>"
  have run: "tac_handle jc (Reply env ?data (Some sender)) ctx = Inr d"
    unfolding reply_read [OF assms(1-3) refl assms(4-6)] accept_lease_eq [OF assms(7) c(1) assms(8)] d_def ..
  have "tac_frame d = tac_frame (client_receive_into ?data ctx)"
    by (simp add: d_def tac_frame_def client_receive_into_def client_socket_alloc_cb_def)
  then have safe: "tac_safe d" using client_receive_safe [OF assms(2) len] tac_safe_frame by blast
  have "lease_rules ((tac_addr ctx)\<lparr>ta_lease_expires := e, ta_rt_table := t\<rparr>) RTM_NEWRULE
      = lease_rules ((tac_addr ctx)\<lparr>ta_rt_table := t\<rparr>) RTM_NEWRULE"
    by (simp add: lease_rules_def rule_message_def Let_def)
  then have "lease_effects env t ?c = [Print_table t]
        @ (if \<not> daemonized ctx \<and> daemonize ctx then [Daemonize] else [])
        @ (if rules_added (tac_addr ctx) then []
           else map Rule_request (lease_rules ((tac_addr ctx)\<lparr>ta_rt_table := t\<rparr>) RTM_NEWRULE))
        @ [Timer_start Request_timeout (nat ((uint e - re_tv_sec env) div 2) * 1000) 0]"
    using renewal_small [OF assms(9,10)] by (simp only: lease_effects_def c) simp
  then have "tac_trace d = tac_trace ctx @ [Print_table t]
        @ (if \<not> daemonized ctx \<and> daemonize ctx then [Daemonize] else [])
        @ (if rules_added (tac_addr ctx) then []
           else map Rule_request (lease_rules ((tac_addr ctx)\<lparr>ta_rt_table := t\<rparr>) RTM_NEWRULE))
        @ [Timer_start Request_timeout (nat ((uint e - re_tv_sec env) div 2) * 1000) 0]"
    by (simp add: d_def c(3))
  moreover have "ta_rt_table (tac_addr d) = t" "ta_lease_expires (tac_addr d) = e" "num_failed d = 0"
    "rules_added (tac_addr d)" "daemonized d" by (simp_all add: d_def)
  ultimately show ?thesis using run safe by blast
qed

text \<open>C38: a reply read after its lease has ended (by up to 18 hours) makes the 32-bit
  subtraction wrap: the client keeps the table, and the renewal is set more than 49 days minus the
  delay ahead, instead of at once.\<close>

theorem late_reply_renews_in_weeks:
  assumes "jsonc_ok jc" and "tac_safe ctx" and "\<not> closing ctx" and "rules_added (tac_addr ctx)" and "daemonized ctx"
    and "t \<noteq> 0" and "t < 2 ^ 31" and "e < 2 ^ 31"
    and "re_tv_sec env = uint e + int d" and "0 < d" and "d < 2 ^ 16"
  shows "\<exists>ctx'. tac_handle jc (Reply env (flat_text (response_fields t e)) (Some sender)) ctx = Inr ctx'
    \<and> ta_rt_table (tac_addr ctx') = t
    \<and> tac_trace ctx' = tac_trace ctx
        @ [Print_table t, Timer_start Request_timeout (2 ^ 32 - 1000 * ((d + 1) div 2)) 0]"
proof -
  let ?data = "flat_text (response_fields t e)"
  have buf: "daemonized (client_receive_into ?data ctx) = daemonized ctx"
    "tac_trace (client_receive_into ?data ctx) = tac_trace ctx"
    "tac_addr (client_receive_into ?data ctx) = tac_addr ctx"
    by (simp_all add: client_receive_into_def client_socket_alloc_cb_def)
  show ?thesis
    unfolding reply_read [OF assms(1-3) refl assms(6-8)] accept_lease_def
    using assms(4,5) renewal_late [OF assms(10,11), of e] buf by (simp add: Let_def assms(9))
qed

text \<open>C29: the socket name of a client always fits (64 characters, below the 106 of an abstract
  address), and two clients whose addresses have no hyphen (no IP address has one) have different names
  unless they have the same interface, address and family. An address with a hyphen, which a client of
  no family may have, is ambiguous: what stands before the hyphen may as well belong to the
  interface.\<close>

theorem socket_names_distinct:
  assumes "length i < IFNAMSIZ" "length a < INET6_ADDRSTRLEN" "f \<in> {AF_INET, AF_INET6, AF_UNSPEC}"
    and "length i' < IFNAMSIZ" "length a' < INET6_ADDRSTRLEN" "f' \<in> {AF_INET, AF_INET6, AF_UNSPEC}"
    and "CHR ''-'' \<notin> set a" "CHR ''-'' \<notin> set a'"
  shows "length (client_socket_name i a f) \<le> 64
    \<and> (client_socket_name i a f = client_socket_name i' a' f' \<longrightarrow> i = i' \<and> a = a' \<and> f = f')
    \<and> client_socket_name i (b @ ''-'' @ a) f = client_socket_name (i @ ''-'' @ b) a f"
  using client_socket_name_inject [OF assms]
  by (simp add: client_socket_name_def UNIX_SOCKET_ADDR_SIZE_def size_defs)

text \<open>C13: the first netlink message that ends the lease deletes the rules, sends the release,
  stops the loop and marks the client as closing; messages after it are not looked at, and later
  replies change nothing.\<close>

theorem netlink_ends_lease:
  assumes "tac_safe ctx" and "\<not> closing ctx" and "se_timer senv = 0" and "\<And>n. se_alloc senv n"
    and "rules_ok rcs" and "0 < nread"
    and "\<forall>m \<in> set before. ends_lease ctx m = Inr False" and "ends_lease ctx m = Inr True"
  shows "\<exists>ctx'. tac_handle jc (Netlink rcs senv nread (before @ m # after)) ctx = Inr ctx' \<and> closing ctx'
    \<and> tac_trace ctx' = tac_trace ctx @ map Rule_request (lease_rules (tac_addr ctx) RTM_DELRULE)
        @ request_effects jc senv ctx TA_SHARED_CMD_REL @ [Loop_stop]
    \<and> (\<forall>env nread partial addr. client_socket_recv_cb jc env nread partial addr ctx' = Inr ctx')"
proof -
  have skip: "netlink_messages jc rcs senv (before @ m # after) ctx = netlink_messages jc rcs senv [m] ctx"
    using assms(7)
  proof (induction before)
    case Nil
    show ?case using assms(8) by (subst append_Nil, subst netlink_messages_Cons) simp
  next
    case (Cons b before)
    then have "ends_lease ctx b = Inr False" by simp
    then have "netlink_messages jc rcs senv ((b # before) @ m # after) ctx = netlink_messages jc rcs senv (before @ m # after) ctx"
      by (subst append_Cons, subst netlink_messages_Cons) simp
    with Cons show ?case by simp
  qed
  let ?c = "(cemit (map Rule_request (lease_rules (tac_addr ctx) RTM_DELRULE)) ctx)
    \<lparr>tac_addr := (tac_addr ctx)\<lparr>rules_added := True\<rparr>\<rparr>"
  have rules: "table_allocator_client_netlink_update_rules rcs RTM_DELRULE ctx = Inr ?c"
    using assms(1,5) rules_sent_all [OF assms(5)]
    by (subst update_rules_eq) (simp_all add: tac_safe_def nl_defs)
  have "tac_safe ?c" using assms(1) by (simp add: tac_safe_def)
  from send_request_eq [OF this assms(3), of jc TA_SHARED_CMD_REL] assms(4)
  have "table_allocator_client_send_request jc senv ?c TA_SHARED_CMD_REL
      = Inr (cemit (request_effects jc senv ctx TA_SHARED_CMD_REL) ?c)"
    by (simp add: table_allocator_shared_json_create_req_def add_fields_all request_effects_def request_text_def)
  then have "netlink_messages jc rcs senv [m] ctx =
      Inr ((cemit [Loop_stop] (cemit (request_effects jc senv ctx TA_SHARED_CMD_REL) ?c))\<lparr>closing := True\<rparr>)"
    using assms(8) rules by (simp add: ends_lease_def [symmetric])
  then show ?thesis
    using skip assms(2,6)
    by (simp add: table_allocator_client_netlink_recv_cb_def client_socket_recv_cb_def cemit_def)
qed

section \<open>Witnesses\<close>

text \<open>The client of \<open>leased_tac\<close> before it has a lease.\<close>

definition waiting_tac :: tac_ctx where
  "waiting_tac = leased_tac\<lparr>tac_addr := leased_addr\<lparr>ta_rt_table := 0\<rparr>\<rparr>"

definition ok_send :: send_env where
  "ok_send = \<lparr>se_alloc = (\<lambda>n. True), se_sendto = 10, se_recv_start = 0, se_timer = 0\<rparr>"

definition ok_reply :: "int \<Rightarrow> reply_env" where
  "ok_reply now = \<lparr>re_tv_sec = now, re_daemon = 0, re_rules = (\<lambda>i. 0), re_closing = False, re_ver = 0, re_cmd = 0\<rparr>"

lemma leased_tac_safe: "tac_safe leased_tac" "tac_safe waiting_tac"
  by (simp_all add: tac_safe_def waiting_tac_def leased_tac_def leased_addr_def terminated_def zero_buf_def
      size_defs nth_append)

lemma waiting_simps [simp]: "ta_rt_table (tac_addr waiting_tac) = 0" "num_failed waiting_tac = 0"
  "\<not> closing waiting_tac" "\<not> closing leased_tac" "tac_trace waiting_tac = []"
  by (simp_all add: waiting_tac_def leased_tac_def)

theorem client_never_stops_witness:
  "\<exists>u. runs (tac_handle ref_json) (tac_admissible ref_json) waiting_tac ([] @ [Request_timer ok_send]) u \<and> tac_safe u"
proof -
  have "tac_admissible ref_json waiting_tac (Request_timer ok_send)" by (simp add: ok_send_def)
  with client_never_stops [OF leased_tac_safe(2) runs.start] show ?thesis by blast
qed

theorem gives_up_after_five_witness:
  "\<exists>ctx'. foldR (\<lambda>e. tac_handle ref_json (Request_timer e)) (replicate 5 ok_send) waiting_tac = Inr ctx'
    \<and> unat (num_failed ctx') = 5 \<and> closing ctx'"
  using gives_up_after_five [OF leased_tac_safe(2), of "replicate 5 ok_send" ref_json]
  by (auto simp: ok_send_def list_all_iff simp del: tac_handle.simps)

theorem reply_installs_lease_witness:
  "\<exists>ctx'. tac_handle ref_json (Reply (ok_reply 100) (flat_text (response_fields 10000 3700)) (Some ''tas_socket'')) waiting_tac
      = Inr ctx' \<and> ta_rt_table (tac_addr ctx') = 10000
    \<and> last (tac_trace ctx') = Timer_start Request_timeout 1800000 0"
proof -
  have "re_daemon (ok_reply 100) = 0" "rules_ok (re_rules (ok_reply 100))" "re_tv_sec (ok_reply 100) = 100"
    by (simp_all add: ok_reply_def rules_ok_def)
  then show ?thesis
    using reply_installs_lease [OF ref_json_ok leased_tac_safe(2), of 10000 3700 "ok_reply 100" "''tas_socket''"]
    by (auto simp del: tac_handle.simps)
qed

theorem late_reply_renews_in_weeks_witness:
  "\<exists>ctx'. tac_handle ref_json (Reply (ok_reply 3702) (flat_text (response_fields 10000 3700)) (Some ''tas_socket''))
      (waiting_tac\<lparr>tac_addr := leased_addr\<lparr>rules_added := True\<rparr>, daemonized := True\<rparr>) = Inr ctx'
    \<and> last (tac_trace ctx') = Timer_start Request_timeout 4294966296 0"
proof -
  let ?c = "waiting_tac\<lparr>tac_addr := leased_addr\<lparr>rules_added := True\<rparr>, daemonized := True\<rparr>"
  have "tac_safe ?c" using leased_tac_safe(2) by (simp add: tac_safe_def waiting_tac_def)
  from late_reply_renews_in_weeks [OF ref_json_ok this, of 10000 3700 "ok_reply 3702" 2 "''tas_socket''"]
  show ?thesis by (auto simp: ok_reply_def simp del: tac_handle.simps)
qed

theorem socket_names_distinct_witness:
  "client_socket_name ''eth0-1'' ''10.0.0.2'' AF_INET \<noteq> client_socket_name ''eth0'' ''10.0.0.2'' AF_INET"
  using socket_names_distinct [of "''eth0-1''" "''10.0.0.2''" AF_INET "''eth0''" "''10.0.0.2''" AF_INET "[]"]
  by (simp add: size_defs)

theorem netlink_ends_lease_witness:
  "\<exists>ctx'. tac_handle ref_json (Netlink (\<lambda>i. 0) ok_send 100 ([Dellink 7] @ Dellink 3 # [Other_nlmsg])) leased_tac = Inr ctx'
    \<and> closing ctx'"
proof -
  have "\<forall>m \<in> set [Dellink 7]. ends_lease leased_tac m = Inr False" "ends_lease leased_tac (Dellink 3) = Inr True"
    by (simp_all add: ends_lease_def table_allocator_client_netlink_handle_dellink_def leased_addr_def)
  moreover have "rules_ok (\<lambda>i. 0)" "se_timer ok_send = 0" "se_alloc ok_send n" for n by (simp_all add: rules_ok_def ok_send_def)
  ultimately show ?thesis
    using netlink_ends_lease [OF leased_tac_safe(1), of ok_send "\<lambda>i. 0" 100 "[Dellink 7]" "Dellink 3" ref_json "[Other_nlmsg]"]
    by (auto simp del: tac_handle.simps)
qed

end
