(* ===== verification/Client_Limits.thy ===== *)
theory Client_Limits
  imports Client_Start Client_Leases
begin

text \<open>
  What the command line offers and the client does not do, shown of the whole program, \<open>client_main\<close>
  and the events after it: the release option, which sets a field that nothing reads, and the
  families other than IPv4, for which \<open>main\<close> opens no netlink socket although the rules of a lease
  are sent through one.
\<close>

section \<open>The release option\<close>

text \<open>A client whose command is another one, and a result with such a client.\<close>

definition with_cmd :: "u8 \<Rightarrow> tac_ctx \<Rightarrow> tac_ctx" where
  "with_cmd k ctx = ctx\<lparr>tac_cmd := k\<rparr>"

definition relabel :: "u8 \<Rightarrow> tac_ctx res \<Rightarrow> tac_ctx res" where
  "relabel k r = bindR r (\<lambda>ctx. Inr (with_cmd k ctx))"

lemma with_cmd_fields [simp]:
  "rt_mnl_socket (with_cmd k ctx) = rt_mnl_socket ctx" "tac_addr (with_cmd k ctx) = tac_addr ctx"
  "destination (with_cmd k ctx) = destination ctx" "rcv_buf (with_cmd k ctx) = rcv_buf ctx"
  "daemonize (with_cmd k ctx) = daemonize ctx" "daemonized (with_cmd k ctx) = daemonized ctx"
  "closing (with_cmd k ctx) = closing ctx" "num_failed (with_cmd k ctx) = num_failed ctx"
  "tac_trace (with_cmd k ctx) = tac_trace ctx"
  by (simp_all add: with_cmd_def)

lemma with_cmd_updates [simp]:
  "cemit es (with_cmd k ctx) = with_cmd k (cemit es ctx)"
  "(with_cmd k ctx)\<lparr>rt_mnl_socket := b\<rparr> = with_cmd k (ctx\<lparr>rt_mnl_socket := b\<rparr>)"
  "(with_cmd k ctx)\<lparr>tac_addr := a\<rparr> = with_cmd k (ctx\<lparr>tac_addr := a\<rparr>)"
  "(with_cmd k ctx)\<lparr>destination := s\<rparr> = with_cmd k (ctx\<lparr>destination := s\<rparr>)"
  "(with_cmd k ctx)\<lparr>rcv_buf := s\<rparr> = with_cmd k (ctx\<lparr>rcv_buf := s\<rparr>)"
  "(with_cmd k ctx)\<lparr>tac_use_syslog := b\<rparr> = with_cmd k (ctx\<lparr>tac_use_syslog := b\<rparr>)"
  "(with_cmd k ctx)\<lparr>daemonize := b\<rparr> = with_cmd k (ctx\<lparr>daemonize := b\<rparr>)"
  "(with_cmd k ctx)\<lparr>daemonized := b\<rparr> = with_cmd k (ctx\<lparr>daemonized := b\<rparr>)"
  "(with_cmd k ctx)\<lparr>closing := b\<rparr> = with_cmd k (ctx\<lparr>closing := b\<rparr>)"
  "(with_cmd k ctx)\<lparr>num_failed := n\<rparr> = with_cmd k (ctx\<lparr>num_failed := n\<rparr>)"
  by (simp_all add: with_cmd_def cemit_def)

lemma relabel_simps [simp]:
  "relabel k (Inl h) = Inl h" "relabel k (Inr ctx) = Inr (with_cmd k ctx)"
  "relabel k (if b then x else y) = (if b then relabel k x else relabel k y)"
  "relabel k (bindR m f) = bindR m (\<lambda>x. relabel k (f x))"
  "bindR (relabel k r) g = bindR r (\<lambda>ctx. g (with_cmd k ctx))"
  by (simp_all add: relabel_def bindR_assoc)

lemma relabel_cases [simp]:
  "relabel k (case x of None \<Rightarrow> a | Some y \<Rightarrow> f y) = (case x of None \<Rightarrow> relabel k a | Some y \<Rightarrow> relabel k (f y))"
  "relabel k (case p of (u, v) \<Rightarrow> g u v) = (case p of (u, v) \<Rightarrow> relabel k (g u v))"
  "bindR (case p of (u, v) \<Rightarrow> g u v) h = (case p of (u, v) \<Rightarrow> bindR (g u v) h)"
  by (simp_all split: option.split prod.split)

lemma if_with_cmd [simp]: "(if b then with_cmd k c else with_cmd k d) = with_cmd k (if b then c else d)"
  by simp

lemmas branches = if_cong option.case_cong prod.case_cong bool.case_cong

text \<open>No callback reads the command.\<close>

lemma modify_rule_with_cmd:
  "table_allocator_client_netlink_modify_rule rc (with_cmd k ctx) t fl p d pr i =
   bindR (table_allocator_client_netlink_modify_rule rc ctx t fl p d pr i) (\<lambda>(r, c). Inr (r, with_cmd k c))"
  by (simp add: table_allocator_client_netlink_modify_rule_def)

lemma rules_with_cmd:
  "table_allocator_client_netlink_update_rules rcs t (with_cmd k ctx) =
   relabel k (table_allocator_client_netlink_update_rules rcs t ctx)"
  by (simp add: table_allocator_client_netlink_update_rules_def table_allocator_client_netlink_modify_rule_def
      rule_failed_def split: prod.split)

lemma send_with_cmd:
  "table_allocator_client_send_request jc env (with_cmd k ctx) cmd =
   relabel k (table_allocator_client_send_request jc env ctx cmd)"
  by (simp add: table_allocator_client_send_request_def start_request_timer_def Let_def cong: branches)

lemma fail_count_with_cmd:
  "table_allocator_client_check_fail_count (with_cmd k ctx) =
   apsnd (with_cmd k) (table_allocator_client_check_fail_count ctx)"
  by (simp add: table_allocator_client_check_fail_count_def Let_def)

lemma accept_with_cmd: "accept_lease env addr t (with_cmd k ctx) = relabel k (accept_lease env addr t ctx)"
  by (simp add: accept_lease_def Let_def rules_with_cmd)

lemma netlink_with_cmd:
  "netlink_messages jc rcs senv ms (with_cmd k ctx) = relabel k (netlink_messages jc rcs senv ms ctx)"
proof (induction ms)
  case (Cons m ms)
  have "ends_lease (with_cmd k ctx) m = ends_lease ctx m"
    by (cases m) (simp_all add: ends_lease_def table_allocator_client_netlink_handle_dellink_def
        table_allocator_client_netlink_handle_deladdr_def)
  with Cons show ?case
    by (simp add: ends_lease_def [symmetric] rules_with_cmd send_with_cmd cong: branches)
qed simp

lemma receive_with_cmd: "client_receive_into data (with_cmd k ctx) = with_cmd k (client_receive_into data ctx)"
  by (simp add: client_receive_into_def client_socket_alloc_cb_def)

lemma recv_cb_with_cmd:
  "client_socket_recv_cb jc env n partial addr (with_cmd k ctx) =
   relabel k (client_socket_recv_cb jc env n partial addr ctx)"
  by (simp add: client_socket_recv_cb_def retransmit_later_def client_socket_stop_recv_def Let_def
      fail_count_with_cmd accept_with_cmd case_prod_unfold cong: branches split: bool.split)

lemma handle_with_cmd: "tac_handle jc e (with_cmd k ctx) = relabel k (tac_handle jc e ctx)"
proof (cases e)
  case (Socket_timer oenv senv)
  then show ?thesis by (simp add: client_socket_timeout_cb_def send_with_cmd cong: branches)
next
  case (Request_timer senv)
  then show ?thesis
    by (simp add: client_request_timeout_handle_cb_def send_with_cmd fail_count_with_cmd case_prod_unfold split: bool.split)
next
  case (Rules_timer rcs)
  then show ?thesis by (simp add: table_allocator_client_netlink_timeout_cb_def rules_with_cmd)
next
  case (Netlink rcs senv n ms)
  then show ?thesis by (simp add: table_allocator_client_netlink_recv_cb_def netlink_with_cmd)
qed (simp_all add: receive_with_cmd recv_cb_with_cmd client_socket_handle_close_cb_def)

lemma events_with_cmd: "foldR (tac_handle jc) es (with_cmd k ctx) = relabel k (foldR (tac_handle jc) es ctx)"
  by (induction es arbitrary: ctx) (simp_all add: handle_with_cmd)

text \<open>Neither does the start: the option is one of a command line read otherwise alike.\<close>

definition relabel_option :: "u8 \<Rightarrow> tac_ctx option res \<Rightarrow> tac_ctx option res" where
  "relabel_option k r = bindR r (\<lambda>c. Inr (map_option (with_cmd k) c))"

lemma parse_options_with_cmd:
  "parse_options opts (with_cmd TA_SHARED_CMD_REL ctx, av) =
   map_option (apfst (with_cmd TA_SHARED_CMD_REL)) (parse_options opts (ctx, av))"
proof (induction opts arbitrary: ctx av)
  case (Cons opt opts)
  have "parse_option opt (with_cmd TA_SHARED_CMD_REL ctx, av) =
      map_option (apfst (with_cmd TA_SHARED_CMD_REL)) (parse_option opt (ctx, av))"
    by (cases opt) (simp add: parse_option_def with_cmd_def)
  then show ?case
    using Cons by (cases "parse_option opt (ctx, av)") (auto simp: apfst_def map_prod_def)
qed simp

lemma parse_options_release:
  "parse_options (pre @ (CHR ''r'', arg) # post) s =
   map_option (apfst (with_cmd TA_SHARED_CMD_REL)) (parse_options (pre @ post) s)"
proof (induction pre arbitrary: s)
  case Nil
  obtain ctx av where s: "s = (ctx, av)" by (cases s)
  have "parse_option (CHR ''r'', arg) (ctx, av) = Some (with_cmd TA_SHARED_CMD_REL ctx, av)"
    by (simp add: parse_option_def with_cmd_def)
  then show ?case by (simp add: s parse_options_with_cmd)
qed (simp split: option.split)

lemma copies_with_cmd:
  "copy_tag t (with_cmd k ctx) = relabel_option k (copy_tag t ctx)"
  "copy_ifname i (with_cmd k ctx) = relabel_option k (copy_ifname i ctx)"
  "copy_destination d (with_cmd k ctx) = relabel_option k (copy_destination d ctx)"
  "copy_address_str a (with_cmd k ctx) = relabel_option k (copy_address_str a ctx)"
  by (simp_all add: copy_tag_def copy_ifname_def copy_destination_def copy_address_str_def relabel_option_def
      bindR_assoc split: option.split)

lemma set_address_with_cmd: "set_address env a n (with_cmd k ctx) = relabel_option k (set_address env a n ctx)"
proof -
  have r: "relabel_option k (Inl h) = Inl h" "relabel_option k (Inr None) = Inr None" for h
    by (simp_all add: relabel_option_def)
  show ?thesis by (simp add: set_address_def copies_with_cmd r split: option.split)
qed

lemma thenR_with_cmd:
  assumes "m' = relabel_option k m" and "\<And>ctx. f (with_cmd k ctx) = relabel_option k (f ctx)"
  shows "thenR m' f = relabel_option k (thenR m f)"
  unfolding assms(1) thenR_def relabel_option_def bindR_assoc
  by (rule bindR_cong) (auto simp: assms(2) relabel_option_def split: option.split)

lemma args_with_cmd:
  "parse_cmd_args env (pre @ (CHR ''r'', arg) # post) ctx =
   relabel_option TA_SHARED_CMD_REL (parse_cmd_args env (pre @ post) ctx)"
proof -
  have none: "relabel_option k (Inr None) = Inr None" for k by (simp add: relabel_option_def)
  show ?thesis
    by (auto simp: parse_cmd_args_def parse_options_release none copies_with_cmd set_address_with_cmd
        intro!: thenR_with_cmd split: option.split) (simp_all add: relabel_option_def bindR_assoc if_distrib [of "\<lambda>r. bindR r g" for g] cong: if_cong)
qed

lemma configure_with_cmd:
  "table_allocator_client_netlink_configure env (with_cmd k ctx) =
   apsnd (with_cmd k) (table_allocator_client_netlink_configure env ctx)"
  by (simp add: table_allocator_client_netlink_configure_def Let_def)

lemma fail_with_cmd: "fail_client (with_cmd k ctx) = relabel k (fail_client ctx)"
  by (simp add: fail_client_def free_ctx_def table_allocator_client_netlink_stop_def Let_def)

lemma main_with_release:
  "client_main aenv env (pre @ (CHR ''r'', arg) # post) =
   relabel TA_SHARED_CMD_REL (client_main aenv env (pre @ post))"
proof (cases "parse_cmd_args aenv (pre @ post) default_ctx")
  case (Inr r)
  then show ?thesis
    by (cases r) (simp_all add: client_main_def args_with_cmd relabel_option_def fail_with_cmd configure_with_cmd
        Let_def case_prod_unfold)
qed (simp add: client_main_def args_with_cmd relabel_option_def)

section \<open>Other families\<close>

text \<open>What the events before the first reply keep.\<close>

definition same_address :: "tac_ctx \<Rightarrow> tac_ctx \<Rightarrow> bool" where
  "same_address ctx ctx' \<longleftrightarrow> rt_mnl_socket ctx' = rt_mnl_socket ctx \<and> tac_addr ctx' = tac_addr ctx
     \<and> rcv_buf ctx' = rcv_buf ctx"

fun before_reply :: "tac_event \<Rightarrow> bool" where
  "before_reply (Socket_timer oenv senv) = True"
| "before_reply (Request_timer senv) = True"
| "before_reply (Reply_error env nread) = (nread < 0)"
| "before_reply Socket_closed = True"
| "before_reply _ = False"

lemma send_same_address:
  "table_allocator_client_send_request jc env ctx cmd = Inr ctx' \<Longrightarrow> same_address ctx ctx'"
  by (auto simp: table_allocator_client_send_request_def start_request_timer_def same_address_def Let_def res_simps
      split: option.split_asm if_split_asm)

lemma fail_count_same_address:
  "table_allocator_client_check_fail_count ctx = (b, ctx') \<Longrightarrow> same_address ctx ctx'"
  by (auto simp: table_allocator_client_check_fail_count_def same_address_def Let_def split: if_split_asm)

lemma same_address_trans: "same_address c d \<Longrightarrow> same_address d e \<Longrightarrow> same_address c e"
  by (simp add: same_address_def)

lemma same_address_emit: "same_address (cemit es c) d = same_address c d" "same_address c (cemit es d) = same_address c d"
  by (simp_all add: same_address_def)

lemma event_same_address:
  assumes "tac_handle jc e ctx = Inr ctx'" and "before_reply e"
  shows "same_address ctx ctx'"
proof -
  have self: "same_address ctx ctx" by (simp add: same_address_def)
  show ?thesis
  proof (cases e)
    case (Socket_timer oenv senv)
    show ?thesis
      using assms(1) self send_same_address same_address_emit
      by (fastforce simp: Socket_timer client_socket_timeout_cb_def res_simps split: if_split_asm)
  next
    case (Request_timer senv)
    obtain b c where f: "table_allocator_client_check_fail_count ctx = (b, c)" by fastforce
    show ?thesis
      using assms(1) send_same_address fail_count_same_address [OF f] same_address_trans
      by (auto simp: Request_timer client_request_timeout_handle_cb_def f split: if_split_asm bool.split_asm)
  next
    case (Reply_error env nread)
    obtain b c where f: "table_allocator_client_check_fail_count ctx = (b, c)" by fastforce
    show ?thesis
      using assms fail_count_same_address [OF f] self
      by (auto simp: Reply_error client_socket_recv_cb_def client_socket_stop_recv_def f same_address_emit
          split: if_split_asm bool.split_asm)
  qed (use assms self in \<open>auto simp: client_socket_handle_close_cb_def same_address_emit split: if_split_asm\<close>)
qed

lemma events_same_address:
  assumes "foldR (tac_handle jc) es ctx = Inr ctx'" and "\<forall>e \<in> set es. before_reply e"
  shows "same_address ctx ctx'"
proof -
  have "same_address ctx ctx" by (simp add: same_address_def)
  with assms(1) show ?thesis
    by (rule foldR_invariant) (use assms(2) event_same_address same_address_trans in blast)
qed

text \<open>The client as its start leaves it for a family other than IPv4.\<close>

lemma parse_options_rules: "parse_options opts (c, av) = Some (c', av') \<Longrightarrow>
  rules_added (tac_addr c') = rules_added (tac_addr c)"
proof (induction opts arbitrary: c av)
  case (Cons opt opts)
  then obtain d v where d: "parse_option opt (c, av) = Some (d, v)" "parse_options opts (d, v) = Some (c', av')"
    by (auto split: option.splits)
  have "rules_added (tac_addr d) = rules_added (tac_addr c)"
    using d(1) by (cases opt) (auto simp: parse_option_def split: if_split_asm)
  with Cons.IH [OF d(2)] show ?case by simp
qed simp

lemma copies_rules:
  "copy_tag t c = Inr (Some d) \<Longrightarrow> rules_added (tac_addr d) = rules_added (tac_addr c)"
  "copy_ifname i c = Inr (Some d) \<Longrightarrow> rules_added (tac_addr d) = rules_added (tac_addr c)"
  "copy_destination s c = Inr (Some d) \<Longrightarrow> rules_added (tac_addr d) = rules_added (tac_addr c)"
  "set_address env a n c = Inr (Some d) \<Longrightarrow> rules_added (tac_addr d) = rules_added (tac_addr c)"
  by (auto simp: copy_tag_def copy_ifname_def copy_destination_def set_address_def copy_address_str_def res_simps
      split: option.split_asm if_split_asm)

lemma args_rules:
  assumes "parse_cmd_args env opts default_ctx = Inr (Some ctx)"
  shows "\<not> rules_added (tac_addr ctx)"
proof -
  from assms obtain c av where o: "parse_options opts (default_ctx, no_args) = Some (c, av)"
    by (auto simp: parse_cmd_args_def split: option.splits)
  have "\<not> rules_added (tac_addr default_ctx)" by (simp add: default_ctx_def)
  then have "\<not> rules_added (tac_addr c)" using parse_options_rules [OF o] by simp
  then show ?thesis
    using assms
    by (auto simp: parse_cmd_args_def o thenR_Some_iff res_simps copies_rules split: if_split_asm option.split_asm)
qed

lemma main_other_family:
  assumes "pton_ok aenv" and "client_main aenv env opts = Inr ctx" and "ta_family (tac_addr ctx) \<noteq> AF_INET"
  shows "\<not> rt_mnl_socket ctx \<and> \<not> rules_added (tac_addr ctx) \<and> terminated TA_SHARED_MAX_JSON_LEN (rcv_buf ctx)"
proof -
  obtain r where r: "parse_cmd_args aenv opts default_ctx = Inr r"
      "\<And>c. r = Some c \<Longrightarrow> strings_ok c \<and> \<not> rt_mnl_socket c"
    using parse_cmd_args_safe [OF assms(1), of opts] unfolding keeps_strings_def by blast
  have fail: "fail_client c \<noteq> Inr d" for c d
    by (simp add: fail_client_def res_simps)
  obtain c where c: "r = Some c"
    using assms(2) r(1) by (cases r) (simp_all add: client_main_def split: if_split_asm)
  obtain ok es where h: "ta_allocator_libuv_helpers_configure_unix_handle (ce_udp_init env)
      (ce_timer_init env) (ce_timer_start env) = (ok, es)" by fastforce
  have fam: "ta_family (tac_addr d) = ta_family (tac_addr c)"
    if "table_allocator_client_netlink_configure nenv (cemit xs c) = (b, d)" for nenv xs b d
    using netlink_configure_frame [OF that] by auto
  have "ctx = cemit (es @ [Timer_init Request_timeout]) c"
    using assms(2,3) fail fam
    by (auto simp: client_main_def r(1) c h Let_def split: if_split_asm prod.split_asm)
  then show ?thesis
    using r(2) [OF c] args_rules [of aenv opts c] r(1) c by (simp add: strings_ok_def)
qed

section \<open>Properties\<close>

text \<open>C40: the option to release the table has no effect. Wherever it stands on the command line, and
  whatever the environment answers and the events after the start are, the client with the option does what
  the client without it does: it starts or fails alike, sends the same requests, and ends in the same
  state but for the field \<open>cmd\<close>, which nothing reads.\<close>

theorem release_option_ignored:
  "bindR (client_main aenv env (pre @ (CHR ''r'', arg) # post)) (foldR (tac_handle jc) es) =
   bindR (bindR (client_main aenv env (pre @ post)) (foldR (tac_handle jc) es))
     (\<lambda>ctx. Inr (ctx\<lparr>tac_cmd := TA_SHARED_CMD_REL\<rparr>))"
proof -
  have "bindR (client_main aenv env (pre @ (CHR ''r'', arg) # post)) (foldR (tac_handle jc) es) =
      relabel TA_SHARED_CMD_REL (bindR (client_main aenv env (pre @ post)) (foldR (tac_handle jc) es))"
    by (simp add: main_with_release events_with_cmd)
  then show ?thesis by (simp add: relabel_def with_cmd_def)
qed


section \<open>Witnesses\<close>

text \<open>A command line that names no family.\<close>

definition unspec_opts :: "(char \<times> string) list" where
  "unspec_opts = [(CHR ''a'', ''wwan-id''), (CHR ''i'', ''eth1''), (CHR ''d'', ''table_allocator'')]"

lemma unspec_runs:
  "\<exists>ctx ctx'. client_main example_args example_setup unspec_opts = Inr ctx \<and> ta_family (tac_addr ctx) \<noteq> AF_INET
     \<and> foldR (tac_handle ref_json) [Socket_closed, Request_timer ok_send] ctx = Inr ctx' \<and> \<not> closing ctx'"
proof -
  have n: "NUL \<in> set (zero_buf n) \<longleftrightarrow> 0 < n" for n by (simp add: zero_buf_def)
  have c: "cstr (ch # s) = (if ch = NUL then [] else ch # cstr s)" for ch s by (simp add: cstr_def)
  have start: "\<exists>c. parse_cmd_args example_args unspec_opts default_ctx = Inr (Some c)
      \<and> ta_family (tac_addr c) = AF_UNSPEC \<and> \<not> closing c \<and> num_failed c = 0 \<and> ta_rt_table (tac_addr c) = 0
      \<and> c_string (ta_address_str (tac_addr c)) = Inr ''wwan-id'' \<and> c_string (ta_ifname (tac_addr c)) = Inr ''eth1''
      \<and> c_string (ta_tag (tac_addr c)) = Inr [] \<and> c_string (destination c) = Inr ''table_allocator''"
    by (simp add: n c parse_cmd_args_def unspec_opts_def parse_option_def no_args_def thenR_def copy_tag_def copy_ifname_def
        copy_destination_def set_address_def copy_address_str_def example_args_def default_ctx_def memcpy_zero_buf
        c_string_def cstr_simps size_defs af_defs)
  then obtain c where c: "parse_cmd_args example_args unspec_opts default_ctx = Inr (Some c)"
    "ta_family (tac_addr c) = AF_UNSPEC" "\<not> closing c" "num_failed c = 0" "ta_rt_table (tac_addr c) = 0"
    "c_string (ta_address_str (tac_addr c)) = Inr ''wwan-id''" "c_string (ta_ifname (tac_addr c)) = Inr ''eth1''"
    "c_string (ta_tag (tac_addr c)) = Inr []" "c_string (destination c) = Inr ''table_allocator''"
    by blast
  have unspec: "AF_UNSPEC \<noteq> AF_INET" by (simp add: af_defs)
  obtain ctx es where ctx: "client_main example_args example_setup unspec_opts = Inr ctx" "ctx = cemit es c"
    using c(1,2) unspec
    by (simp add: client_main_def example_setup_def ta_allocator_libuv_helpers_configure_unix_handle_def Let_def)
  have "\<exists>ctx'. foldR (tac_handle ref_json) [Socket_closed, Request_timer ok_send] ctx = Inr ctx' \<and> \<not> closing ctx'"
    using c(2-9)
    by (simp add: ctx(2) client_socket_handle_close_cb_def client_request_timeout_handle_cb_def Let_def
        table_allocator_client_check_fail_count_def NUM_FAILED_LIMIT_def table_allocator_client_send_request_def
        start_request_timer_def ok_send_def abstract_address_def size_defs table_allocator_shared_json_create_req_def
        request_fields_def memcpy_buf_def length_zero_buf SUN_PATH_SIZE_def split: option.split)
  with ctx c(2) unspec show ?thesis by auto
qed


end
