(* ===== verification/Network_Server.thy ===== *)
theory Network_Server
  imports Server_Sockets
begin

text \<open>
  How a lease lives in the server's database while the handlers run: what one event does to the
  rows of all clients. A lease that has not ended stays with its client and table, with an end
  that only moves on, until its client releases it.
\<close>

definition live_kept :: "int \<Rightarrow> tas_ctx \<Rightarrow> tas_ctx \<Rightarrow> bool" where
  "live_kept now ctx ctx' \<longleftrightarrow> (\<forall>r \<in> set (rt_rows ctx). now < LeaseExpires r \<longrightarrow>
     (\<exists>q \<in> set (rt_rows ctx'). client_of q = client_of r \<and> row_tbl q = row_tbl r \<and> LeaseExpires r \<le> LeaseExpires q))"

text \<open>No lease ends later than one granted now.\<close>

definition lease_bound :: "int \<Rightarrow> tas_ctx \<Rightarrow> bool" where
  "lease_bound now ctx \<longleftrightarrow> (\<forall>r \<in> set (rt_rows ctx). LeaseExpires r \<le> now + uint (table_timeout ctx))"

lemma live_kept_same: "set (rt_rows ctx) \<subseteq> set (rt_rows ctx') \<Longrightarrow> live_kept now ctx ctx'"
  by (auto simp: live_kept_def)

lemma live_kept_rows [simp]:
  "live_kept now (emit es ctx) = live_kept now ctx" "live_kept now ctx (emit es ctx') = live_kept now ctx ctx'"
  "live_kept now (ctx\<lparr>req := rq\<rparr>) = live_kept now ctx" "live_kept now (receive_into d ctx) = live_kept now ctx"
  by (simp_all add: fun_eq_iff live_kept_def receive_into_def unix_socket_alloc_cb_def)

lemma lease_bound_rows [simp]:
  "lease_bound now (emit es ctx) = lease_bound now ctx"
  "lease_bound now (ctx\<lparr>req := rq\<rparr>) = lease_bound now ctx" "lease_bound now (receive_into d ctx) = lease_bound now ctx"
  by (simp_all add: lease_bound_def receive_into_def unix_socket_alloc_cb_def)

text \<open>The end of a lease granted now, in the column and in the reply.\<close>

lemma granted_end:
  assumes "clock_ok now"
  shows "sint (word_of_int (now + uint (t :: u16)) :: u32) = now + uint t"
    and "uint (word_of_int (now + uint (t :: u16)) :: u32) = now + uint t"
    and "c_int (now + uint (t :: u16)) = now + uint t"
    and "(word_of_int (now + uint (t :: u16)) :: u32) < 2 ^ 31"
proof -
  have "uint t < 2 ^ 16" using uint_bounded [of t] by simp
  have uint_u32: "uint (word_of_int n :: u32) = n" if "0 \<le> n" "n < 2 ^ 31" for n
    using that by (simp add: uint_word_of_int take_bit_int_eq_self)
  from \<open>uint t < 2 ^ 16\<close> have b: "0 \<le> now + uint t" "now + uint t < 2 ^ 31"
    using assms uint_ge_0 [of t] by (auto simp: clock_ok_def)
  then show s: "sint (word_of_int (now + uint t) :: u32) = now + uint t" by (rule sint_u32_small)
  show u: "uint (word_of_int (now + uint t) :: u32) = now + uint t"
    using b uint_u32 by blast
  show "c_int (now + uint t) = now + uint t" using s by (simp add: c_int_def)
  show "(word_of_int (now + uint t) :: u32) < 2 ^ 31" using u b(2) by (simp add: word_less_def)
qed

text \<open>What a renewal and an insertion do to the leases of all clients.\<close>

lemma renewal_leases:
  assumes "srv_wf ctx" and "clock_ok now" and "lease_bound now ctx" and "r \<in> set (rt_rows ctx)" and "row_fam r = fam"
    and "rt_rows ctx1 = rt_rows ctx" and "table_timeout ctx1 = table_timeout ctx"
    and "table_allocator_sqlite_update_lease rc ctx1 (row_tbl r) fam (word_of_int (now + uint (table_timeout ctx))) = (ok, ctx2)"
  shows "live_kept now ctx ctx2 \<and> lease_bound now ctx2 \<and> (ok \<longrightarrow> (\<exists>q \<in> set (rt_rows ctx2).
    client_of q = client_of r \<and> row_tbl q = row_tbl r \<and> now + uint (table_timeout ctx) \<le> LeaseExpires q))"
proof (cases ok)
  case False
  with update_lease_cases [OF assms(8)] have "ctx2 = ctx1" by simp
  with False assms(3,6,7) show ?thesis by (simp add: live_kept_same lease_bound_def)
next
  case True
  let ?e = "now + uint (table_timeout ctx)"
  let ?upd = "\<lambda>p. if AddrFamily p = uint fam \<and> RtTable p = sint (row_tbl r) then p\<lparr>LeaseExpires := ?e\<rparr> else p"
  have ctx2: "rt_rows ctx2 = map ?upd (rt_rows ctx)" "table_timeout ctx2 = table_timeout ctx"
    using True update_lease_cases [OF assms(8)] granted_end(1) [OF assms(2), of "table_timeout ctx"]
    by (simp_all add: assms(6,7) update_rt_table_def del: of_int_add)
  have upd: "client_of (?upd p) = client_of p" "row_tbl (?upd p) = row_tbl p" for p
    by (simp_all add: client_of_def row_tbl_def)
  have "live_kept now ctx ctx2"
    unfolding live_kept_def ctx2
  proof (intro ballI impI)
    fix p assume p: "p \<in> set (rt_rows ctx)"
    then have "LeaseExpires p \<le> LeaseExpires (?upd p)" using assms(3) by (simp add: lease_bound_def)
    moreover have "?upd p \<in> set (map ?upd (rt_rows ctx))" using p by simp
    ultimately show "\<exists>q \<in> set (map ?upd (rt_rows ctx)). client_of q = client_of p \<and> row_tbl q = row_tbl p
        \<and> LeaseExpires p \<le> LeaseExpires q" using upd [of p] by blast
  qed
  moreover have "lease_bound now ctx2" using assms(3) by (auto simp: lease_bound_def ctx2)
  moreover have "?upd r \<in> set (rt_rows ctx2)" "?e \<le> LeaseExpires (?upd r)"
    using assms(1,4,5) by (auto simp: ctx2 srv_wf_def row_ok_def)
  ultimately show ?thesis using upd [of r] by blast
qed

lemma insertion_leases:
  assumes "live_taken now ctx" and "clock_ok now" and "lease_bound now ctx"
    and "ctx_free ctx (req_family rq) (table_id ctx t)"
    and "rt_rows ctx1 = rt_rows ctx" and "table_timeout ctx1 = table_timeout ctx"
    and "table_allocator_sqlite_insert_table rc ctx1 rq t (now + uint (table_timeout ctx)) = (True, ctx2)"
  shows "live_kept now ctx ctx2 \<and> lease_bound now ctx2 \<and> (\<exists>q \<in> set (rt_rows ctx2).
    client_of q = client_key rq \<and> row_tbl q = t \<and> now + uint (table_timeout ctx) \<le> LeaseExpires q)"
proof -
  let ?e = "now + uint (table_timeout ctx)"
  note e = granted_end(3) [OF assms(2), of "table_timeout ctx"]
  have ctx2: "set (rt_rows ctx2) = insert (row_of rq t ?e)
      {q \<in> set (rt_rows ctx). \<not> (RtTable q = sint t \<and> AddrFamily q = uint (req_family rq))}"
    "table_timeout ctx2 = table_timeout ctx"
    using insert_table_cases [OF assms(7)] by (auto simp: assms(5,6) set_insert_rt_table)
  have other: "\<not> (RtTable q = sint t \<and> AddrFamily q = uint (req_family rq))"
    if "q \<in> set (rt_rows ctx)" "now < LeaseExpires q" for q
  proof
    assume "RtTable q = sint t \<and> AddrFamily q = uint (req_family rq)"
    then have "row_fam q = req_family rq" "row_id ctx q = table_id ctx t"
      by (simp_all add: row_fam_def row_id_def row_tbl_def)
    with assms(1,4) that show False by (auto simp: live_taken_def)
  qed
  have "live_kept now ctx ctx2" using other by (auto simp: live_kept_def ctx2)
  moreover have "lease_bound now ctx2" using assms(3) e by (auto simp: lease_bound_def ctx2)
  moreover have "row_of rq t ?e \<in> set (rt_rows ctx2)" "row_tbl (row_of rq t ?e) = t" "LeaseExpires (row_of rq t ?e) = ?e"
    using e by (simp_all add: ctx2 row_tbl_def)
  ultimately show ?thesis using client_of_row_of order_refl by metis
qed

lemma request_leases:
  assumes "srv_inv now ctx" and "clock_ok now" and "lease_bound now ctx" and "clock env \<in> {None, Some now}"
    and "table_allocator_server_clients_handle_req env ctx rq = Inr (res, ctx')"
  shows "live_kept now ctx ctx' \<and> lease_bound now ctx'
    \<and> (\<forall>t e. res = Some (t, e) \<longrightarrow> t \<noteq> 0 \<and> table_id ctx' t < capacity ctx' \<and> e < 2 ^ 31 \<and> (\<exists>r \<in> set (rt_rows ctx').
         client_of r = client_key rq \<and> row_tbl r = t \<and> uint e \<le> LeaseExpires r))"
proof -
  from assms(1) have wf: "srv_wf ctx" and live: "live_taken now ctx" by (simp_all add: srv_inv_def)
  note e = granted_end(2,4) [OF assms(2), of "table_timeout ctx"]
  have grant: "\<forall>t e. res = Some (t, e) \<longrightarrow> t \<noteq> 0 \<and> table_id ctx' t < capacity ctx'"
    using handle_req_grant [OF wf, of env rq _ _ ctx'] assms(5) by auto
  from wf show ?thesis
  proof (cases rule: handle_req_cases [where env = env and rq = rq])
    case refused
    with assms(3,5) show ?thesis by (simp add: live_kept_same)
  next
    case (full tv ctx1)
    then have "rt_rows ctx1 = rt_rows ctx" "table_timeout ctx1 = table_timeout ctx" by auto
    with full(6) assms(3,5) show ?thesis by (simp add: live_kept_same lease_bound_def)
  next
    case (again tv r ctx1 ctx2 ok)
    have tv: "tv = now" using assms(4) again(2) by simp
    have "rt_rows ctx1 = rt_rows ctx" "table_timeout ctx1 = table_timeout ctx" by (simp_all add: again(7))
    with renewal_leases [OF wf assms(2,3) again(3,5)] again(4,9) have "live_kept now ctx ctx2" "lease_bound now ctx2"
      "ok \<longrightarrow> (\<exists>q \<in> set (rt_rows ctx2). client_of q = client_key rq \<and> row_tbl q = row_tbl r
        \<and> now + uint (table_timeout ctx) \<le> LeaseExpires q)" by (simp_all add: tv)
    moreover have "ctx' = ctx2" "res = (if ok then Some (row_tbl r, word_of_int (now + uint (table_timeout ctx))) else None)"
      using again(10) assms(5) by (simp_all add: tv)
    ultimately show ?thesis using grant e by (cases ok) auto
  next
    case (fresh tv i t ctx1 ctx2 ok)
    have tv: "tv = now" using assms(4) fresh(2) by simp
    show ?thesis
    proof (cases ok)
      case False
      then have "ctx' = toggle_id ctx1 (req_family rq) i" "res = None" using fresh(13) assms(5) by simp_all
      then show ?thesis using assms(3) by (simp add: fresh(11) live_kept_same lease_bound_def)
    next
      case True
      have "rt_rows ctx1 = rt_rows ctx" "table_timeout ctx1 = table_timeout ctx" by (simp_all add: fresh(11))
      with insertion_leases [OF live assms(2,3), of rq t ctx1 "ins_rc env" ctx2] fresh(6,8,12) True
      have "live_kept now ctx ctx2" "lease_bound now ctx2" "\<exists>q \<in> set (rt_rows ctx2). client_of q = client_key rq
        \<and> row_tbl q = t \<and> now + uint (table_timeout ctx) \<le> LeaseExpires q" by (simp_all add: tv)
      moreover have "ctx' = ctx2" "res = Some (t, word_of_int (now + uint (table_timeout ctx)))"
        using fresh(13) assms(5) True by (simp_all add: tv)
      ultimately show ?thesis using grant e by auto
    qed
  qed
qed

lemma release_leases:
  assumes "srv_wf ctx" and "lease_bound now ctx"
    and "table_allocator_server_clients_handle_release sel_rc del_rc ctx rq = Inr (ok, ctx')"
  shows "lease_bound now ctx'
    \<and> (\<forall>r \<in> set (rt_rows ctx). client_of r \<noteq> client_key rq \<longrightarrow> r \<in> set (rt_rows ctx'))"
  using assms(1)
proof (cases rule: handle_release_cases [where sel_rc = sel_rc and del_rc = del_rc and rq = rq])
  case (released r ctx1)
  obtain a b d where key: "client_key rq = (a, b, d)" by (metis prod_cases3)
  have "ctx' = toggle_id ctx1 (row_fam r) (row_id ctx r)" using released(6) assms(3) by simp
  then show ?thesis
    using assms(2) by (auto simp: released(5) key lease_bound_def set_delete_rt_table client_of_def)
qed (use assms in auto)

lemma sweep_leases:
  assumes "clock_ok now" and "clk = None \<or> clk = Some now" and "lease_bound now ctx"
    and "table_allocator_server_clients_delete_dead_leases clk sel_rc del_rc ctx = Inr ctx'"
  shows "live_kept now ctx ctx' \<and> lease_bound now ctx'"
proof -
  have step: "rt_rows c' = rt_rows c \<and> table_timeout c' = table_timeout c" if "release_dead_lease f t c = Inr c'" for f t c c'
    using that by (auto simp: release_dead_lease_def release_table_def res_simps update_family_map_def split: if_splits)
  have "rt_rows c = rt_rows ctx \<and> table_timeout c = table_timeout ctx" if "run_check_table release_dead_lease xs ctx = Inr c" for xs c
    using that unfolding run_check_table_def by (rule foldR_invariant) (auto dest: step)
  with assms show ?thesis
    by (auto simp: table_allocator_server_clients_delete_dead_leases_def table_allocator_sqlite_delete_dead_leases_def
        live_kept_def lease_bound_def delete_dead_leases_def clock_ok_sint res_simps split: if_splits option.splits)
qed

section \<open>Events\<close>

text \<open>The numbers of the tables fit the 31 bits the client reads.\<close>

definition range_ok :: "tas_ctx \<Rightarrow> bool" where
  "range_ok ctx \<longleftrightarrow> unat (table_offset ctx) + capacity ctx \<le> 2 ^ 31"

lemma range_ok_emit [simp]:
  "range_ok (emit es ctx) = range_ok ctx" "capacity (emit es ctx) = capacity ctx" "table_id (emit es ctx) = table_id ctx"
  by (simp_all add: range_ok_def capacity_def table_id_def fun_eq_iff)

lemma range_ok_io: "same_io ctx ctx' \<Longrightarrow> range_ok ctx' = range_ok ctx"
  by (simp add: range_ok_def same_io_def capacity_def)

lemma table_bound:
  assumes "range_ok ctx" and "table_id ctx t < capacity ctx"
  shows "t < 2 ^ 31"
proof -
  have "unat t = (unat (table_offset ctx) + table_id ctx t) mod 2 ^ 32"
    by (simp add: table_id_def flip: unat_word_ariths(1) [where 'a = 32, simplified])
  then have "unat t < 2 ^ 31" using assms by (simp add: range_ok_def)
  then show ?thesis by (simp add: word_less_nat_alt)
qed

text \<open>The events other than datagrams.\<close>

fun is_datagram :: "srv_event \<Rightarrow> bool" where
  "is_datagram (Datagram env data addr) = True"
| "is_datagram _ = False"

lemma quiet_srv_event:
  assumes "srv_safe (now, ctx)" and "lease_bound now ctx" and "srv_admissible jc (now, ctx) e" and "\<not> is_datagram e"
  shows "\<exists>now' ctx'. srv_handle jc e (now, ctx) = Inr (now', ctx') \<and> srv_safe (now', ctx') \<and> now \<le> now'
    \<and> lease_bound now' ctx' \<and> live_kept now ctx ctx' \<and> same_io ctx ctx'
    \<and> (\<exists>es. trace ctx' = trace ctx @ es \<and> sent es = [])"
proof -
  obtain s' where s': "srv_handle jc e (now, ctx) = Inr s'" "srv_safe s'" using srv_step [OF assms(1,3)] by blast
  obtain now' ctx' where n: "s' = (now', ctx')" by fastforce
  have "now \<le> now' \<and> lease_bound now' ctx' \<and> live_kept now ctx ctx' \<and> same_io ctx ctx'
    \<and> (\<exists>es. trace ctx' = trace ctx @ es \<and> sent es = [])"
  proof (cases e)
    case (Tick k)
    then show ?thesis using s'(1) assms(2) by (auto simp: n lease_bound_def live_kept_same)
  next
    case (Socket_error env nread)
    then show ?thesis using s'(1) assms(2,3) by (auto simp: n unix_socket_recv_cb_def unix_socket_stop_recv_def live_kept_same)
  next
    case Socket_closed
    then show ?thesis using s'(1) assms(2) by (auto simp: n unix_socket_handle_close_cb_def live_kept_same)
  next
    case (Socket_timer env)
    have "NUL \<in> set (socket_path ctx)" using assms(1) by (simp add: srv_safe_def)
    from socket_timer_total [OF this, of env] obtain es where "unix_socket_timeout_cb env ctx = Inr (emit es ctx)" "sent es = []" by blast
    then show ?thesis using s'(1) assms(2) by (auto simp: n Socket_timer live_kept_same)
  next
    case (Sweep_timer clk sel_rc del_rc)
    have clk: "clock_ok now" "clk = None \<or> clk = Some now" using assms(1,3) by (simp_all add: Sweep_timer srv_safe_def)
    have run: "table_allocator_server_clients_delete_dead_leases clk sel_rc del_rc ctx = Inr ctx'" "now' = now"
      using s'(1) by (auto simp: n Sweep_timer res_simps)
    then show ?thesis using sweep_leases [OF clk assms(2)] sweep_quiet by (simp add: quiet_io_def)
  qed (use assms(4) in simp)
  with s' n show ?thesis by simp
qed

text \<open>The datagrams of clients: what a reply grants, and what a request or a release leaves of the rows.\<close>

definition granted_to :: "client_key \<Rightarrow> tas_ctx \<Rightarrow> u32 \<Rightarrow> u32 \<Rightarrow> bool" where
  "granted_to k ctx t e \<longleftrightarrow> (t = 0 \<longrightarrow> e = 0) \<and> e < 2 ^ 31 \<and> (t \<noteq> 0 \<longrightarrow> table_id ctx t < capacity ctx
     \<and> (\<exists>r \<in> set (rt_rows ctx). client_of r = k \<and> row_tbl r = t \<and> uint e \<le> LeaseExpires r))"

definition rows_kept :: "u8 \<Rightarrow> client_key \<Rightarrow> int \<Rightarrow> tas_ctx \<Rightarrow> tas_ctx \<Rightarrow> bool" where
  "rows_kept cmd k now ctx ctx' \<longleftrightarrow> (if cmd = TA_SHARED_CMD_REQ then live_kept now ctx ctx'
     else \<forall>r \<in> set (rt_rows ctx). client_of r \<noteq> k \<longrightarrow> r \<in> set (rt_rows ctx'))"

lemma granted_simps [simp]:
  "granted_to k (emit es ctx) = granted_to k ctx" "rows_kept cmd k now ctx (emit es ctx') = rows_kept cmd k now ctx ctx'"
  by (simp_all add: granted_to_def rows_kept_def fun_eq_iff)

lemma answer_sent:
  assumes "jsonc_ok jc" and "\<And>t e. answer = Some (t, e) \<Longrightarrow> P t e"
  shows "\<exists>es. unix_socket_reply jc env ctx sender answer = Inr (emit es ctx)
    \<and> (\<forall>d \<in> set (sent es). \<exists>t e. d = (sender, flat_text (response_fields t e)) \<and> P t e)"
  using assms(1)
proof (cases rule: reply_sent [where env = env and ctx = ctx and sender = sender and answer = answer])
  case silent
  then show ?thesis by (metis empty_iff list.set(1) sent_simps(1))
next
  case (reply t e)
  moreover have "P t e" using reply(1) by (rule assms(2))
  ultimately show ?thesis by (intro exI [of _ "[Sendto sender (flat_text (response_fields t e)) (rcv_sendto env)]"]) auto
qed

text \<open>The handler of a client's datagram, up to its reply.\<close>

lemma handled_request:
  assumes "srv_inv now c" and "clock_ok now" and "lease_bound now c" and "clock (rcv_req env) \<in> {None, Some now}"
    and "cmd = TA_SHARED_CMD_REQ \<or> cmd = TA_SHARED_CMD_REL"
  shows "\<exists>answer c1. (if cmd = TA_SHARED_CMD_REQ then table_allocator_server_clients_handle_req (rcv_req env) c rq = Inr (answer, c1)
      else \<exists>ok. table_allocator_server_clients_handle_release (rcv_sel env) (rcv_del env) c rq = Inr (ok, c1)
        \<and> answer = (if ok then Some (0, 0) else None))
    \<and> quiet_io c c1 \<and> lease_bound now c1 \<and> rows_kept cmd (client_key rq) now c c1
    \<and> (\<forall>t e. answer = Some (t, e) \<longrightarrow> granted_to (client_key rq) c1 t e)"
proof (cases "cmd = TA_SHARED_CMD_REQ")
  case True
  have wf: "srv_wf c" using assms(1) by (simp add: srv_inv_def)
  obtain res c1 where h: "table_allocator_server_clients_handle_req (rcv_req env) c rq = Inr (res, c1)"
    using handle_req_preserves [OF assms(1)] by blast
  have "quiet_io c c1 \<and> lease_bound now c1 \<and> rows_kept cmd (client_key rq) now c c1
      \<and> (\<forall>t e. res = Some (t, e) \<longrightarrow> granted_to (client_key rq) c1 t e)"
    using handle_req_quiet [OF wf h] request_leases [OF assms(1-4) h] True by (simp add: granted_to_def rows_kept_def)
  with h True show ?thesis by (intro exI [of _ res] exI [of _ c1]) simp
next
  case False
  have wf: "srv_wf c" using assms(1) by (simp add: srv_inv_def)
  obtain ok c1 where h: "table_allocator_server_clients_handle_release (rcv_sel env) (rcv_del env) c rq = Inr (ok, c1)"
    using handle_release_preserves [OF assms(1)] by blast
  have "quiet_io c c1 \<and> lease_bound now c1 \<and> rows_kept cmd (client_key rq) now c c1 \<and> granted_to k c1 0 0" for k
    using handle_release_quiet [OF wf h] release_leases [OF wf assms(3) h] False by (simp add: granted_to_def rows_kept_def)
  with h False show ?thesis by (intro exI [of _ "if ok then Some (0, 0) else None"] exI [of _ c1]) simp
qed

text \<open>What clients send is JSON.\<close>

lemma request_admissible:
  assumes "jsonc_ok jc" and "req_strings address ifname tag" and "length data < CLIENT_REQ_BUFFER_SIZE"
    and "data = flat_text (request_fields address ifname tag fam cmd)"
  shows "srv_admissible jc s (Datagram env data (Some sender))"
proof -
  obtain now ctx where s: "s = (now, ctx)" by fastforce
  have flat: "flat (request_fields address ifname tag fam cmd)"
    using assms(2) by (intro request_flat) (simp_all add: req_strings_def)
  then have "NUL \<notin> set data" using flat_text_no_nul assms(4) by simp
  then have "cstr (client_req_buffer (receive_into data ctx)) = data @ cstr (drop (length data) (client_req_buffer ctx))"
    using assms(3) by (simp add: receive_into_def unix_socket_alloc_cb_def cstr_append)
  then show ?thesis
    using assms(1,3) flat by (simp add: s jsonc_ok_def assms(4))
qed

lemma served_request:
  assumes "jsonc_ok jc" and "req_strings address ifname tag" and "srv_safe (now, ctx)" and "lease_bound now ctx"
    and "clock (rcv_req env) \<in> {None, Some now}"
    and "data = flat_text (request_fields address ifname tag fam cmd)" and "length data < CLIENT_REQ_BUFFER_SIZE"
    and "cmd = TA_SHARED_CMD_REQ \<or> cmd = TA_SHARED_CMD_REL" and "k = (uint fam, ifname, address)"
  shows "\<exists>ctx' es. srv_handle jc (Datagram env data (Some sender)) (now, ctx) = Inr (now, ctx') \<and> srv_safe (now, ctx')
    \<and> lease_bound now ctx' \<and> range_ok ctx' = range_ok ctx \<and> socket_path ctx' = socket_path ctx \<and> trace ctx' = trace ctx @ es
    \<and> rows_kept cmd k now ctx ctx'
    \<and> (\<forall>d \<in> set (sent es). \<exists>t e. d = (sender, flat_text (response_fields t e)) \<and> granted_to k ctx' t e)"
proof -
  let ?rq = "sent_req address ifname tag fam cmd" and ?c = "(receive_into data ctx)\<lparr>req := sent_req address ifname tag fam cmd\<rparr>"
  have s: "srv_inv now ctx" "clock_ok now" "terminated CLIENT_REQ_BUFFER_SIZE (client_req_buffer ctx)"
    using assms(3) by (simp_all add: srv_safe_def)
  have key: "client_key ?rq = k"
    using assms(2) by (simp add: assms(9) client_key_def sent_req_def cstr_padded safe_no_nul req_strings_def)
  have c: "srv_inv now ?c" "lease_bound now ?c" "trace ?c = trace ctx" "socket_path ?c = socket_path ctx"
    "range_ok ?c = range_ok ctx" "rows_kept cmd k now ?c = rows_kept cmd k now ctx"
    using s(1) assms(4) by (simp_all add: receive_into_def unix_socket_alloc_cb_def range_ok_def capacity_def
        rows_kept_def live_kept_def lease_bound_def fun_eq_iff)
  from handled_request [OF c(1) s(2) c(2) assms(5,8), of ?rq, unfolded key c(6)] obtain answer c1 where
    h: "if cmd = TA_SHARED_CMD_REQ then table_allocator_server_clients_handle_req (rcv_req env) ?c ?rq = Inr (answer, c1)
      else \<exists>ok. table_allocator_server_clients_handle_release (rcv_sel env) (rcv_del env) ?c ?rq = Inr (ok, c1)
        \<and> answer = (if ok then Some (0, 0) else None)"
    and c1: "quiet_io ?c c1" "lease_bound now c1" "rows_kept cmd k now ctx c1"
    and grant: "\<And>t e. answer = Some (t, e) \<Longrightarrow> granted_to k c1 t e" by blast
  obtain es where es: "unix_socket_reply jc env c1 sender answer = Inr (emit es c1)"
    "\<forall>d \<in> set (sent es). \<exists>t e. d = (sender, flat_text (response_fields t e)) \<and> granted_to k c1 t e"
    using answer_sent [where P = "granted_to k c1", OF assms(1) grant] by blast
  have run: "srv_handle jc (Datagram env data (Some sender)) (now, ctx) = Inr (now, emit es c1)"
    unfolding request_received [OF assms(1,2) s(3) assms(6,7)] using h es(1) assms(8)
    by (cases "cmd = TA_SHARED_CMD_REQ") (auto simp: Let_def)
  moreover have "srv_safe (now, emit es c1)"
    using srv_step [OF assms(3) request_admissible [OF assms(1,2,7,6), of "(now, ctx)" env sender]]
    unfolding run by simp
  moreover have "range_ok c1 = range_ok ctx" "trace c1 = trace ctx" "socket_path c1 = socket_path ctx"
    using c1(1) c(3-5) range_ok_io [of ?c c1] by (simp_all add: quiet_io_def same_io_def)
  ultimately show ?thesis
    using c1 es(2) by (intro exI [of _ "emit es c1"] exI [of _ es]) simp
qed

end
