(* ===== verification/Network_Client.thy ===== *)
theory Network_Client
  imports Client_Leases
begin

text \<open>
  What one event does to a client as its peers see it: the datagrams it sends and the lease it
  holds. Only a reply changes the lease, and only a client that is closing has sent a release.
\<close>

lemma sent_rule_requests [simp]: "sent (map Rule_request rs) = []"
  by (simp add: sent_def comp_def)

lemma sent_rules:
  assumes "rt_mnl_socket ctx"
  shows "\<exists>a es. table_allocator_client_netlink_update_rules rcs t ctx =
    Inr (cemit es (ctx\<lparr>tac_addr := (tac_addr ctx)\<lparr>rules_added := a\<rparr>\<rparr>)) \<and> sent es = []"
proof (cases "t = RTM_NEWRULE \<and> rules_added (tac_addr ctx)")
  case True
  then have "table_allocator_client_netlink_update_rules rcs t ctx =
      Inr (cemit [] (ctx\<lparr>tac_addr := (tac_addr ctx)\<lparr>rules_added := rules_added (tac_addr ctx)\<rparr>\<rparr>))"
    by (simp add: table_allocator_client_netlink_update_rules_def)
  then show ?thesis using sent_simps(1) by blast
next
  case False
  let ?ms = "map Rule_request (take (rules_sent rcs) (lease_rules (tac_addr ctx) t))"
  let ?es = "?ms @ (if \<not> rules_ok rcs \<and> t = RTM_NEWRULE then [Timer_start Netlink_timeout TAC_NETLINK_TIMEOUT_MS 0] else [])"
  have "table_allocator_client_netlink_update_rules rcs t ctx =
      Inr (cemit ?es (ctx\<lparr>tac_addr := (tac_addr ctx)\<lparr>rules_added := rules_ok rcs \<or> rules_added (tac_addr ctx)\<rparr>\<rparr>))"
    unfolding update_rules_eq [OF assms False] by (auto simp: rule_failed_def cemit_def)
  moreover have "sent ?es = []" by simp
  ultimately show ?thesis by blast
qed

text \<open>A step between replies; a request goes to the client's destination.\<close>

definition request_datagram :: "jsonc \<Rightarrow> tac_ctx \<Rightarrow> u8 \<Rightarrow> string \<times> string" where
  "request_datagram jc c cmd = (cstr (destination c), request_text jc c cmd)"

definition quiet_step :: "jsonc \<Rightarrow> tac_ctx \<Rightarrow> tac_ctx \<Rightarrow> bool" where
  "quiet_step jc c c' \<longleftrightarrow> tac_frame c' = tac_frame c
     \<and> ta_rt_table (tac_addr c') = ta_rt_table (tac_addr c) \<and> ta_lease_expires (tac_addr c') = ta_lease_expires (tac_addr c)
     \<and> (closing c \<longrightarrow> closing c')
     \<and> (\<exists>es. tac_trace c' = tac_trace c @ es \<and> (\<forall>d \<in> set (sent es).
          d = request_datagram jc c TA_SHARED_CMD_REQ \<or> d = request_datagram jc c TA_SHARED_CMD_REL \<and> closing c'))"

text \<open>Who the client is to the server.\<close>

definition identity :: "tac_ctx \<Rightarrow> string \<times> string \<times> string \<times> string \<times> u8" where
  "identity c = (destination c, ta_ifname (tac_addr c), ta_address_str (tac_addr c), ta_tag (tac_addr c), ta_family (tac_addr c))"

lemma identity_request: "identity c' = identity c \<Longrightarrow> request_datagram jc c' = request_datagram jc c"
  by (simp add: fun_eq_iff request_datagram_def request_text_def identity_def)

lemma identity_frame: "tac_frame c' = tac_frame c \<Longrightarrow> identity c' = identity c"
  by (simp add: identity_def tac_frame_def)

lemma request_frame: "tac_frame c' = tac_frame c \<Longrightarrow> request_datagram jc c' = request_datagram jc c"
  using identity_request identity_frame by blast

lemma quiet_cemit: "sent es = [] \<Longrightarrow> quiet_step jc c (cemit es c)"
  by (auto simp: quiet_step_def)

lemma quiet_request:
  assumes "tac_safe c" and "se_timer env = 0"
  shows "\<exists>es. table_allocator_client_send_request jc env c cmd = Inr (cemit es c)
    \<and> set (sent es) \<subseteq> {request_datagram jc c cmd}"
  using send_request_eq [OF assms, of jc cmd]
  by (auto simp: request_effects_def request_datagram_def intro!: exI)

lemma quiet_resend:
  assumes "tac_safe c" and "se_timer env = 0" and "c = cemit es b" and "sent es = []" 
  shows "\<exists>c'. table_allocator_client_send_request jc env c TA_SHARED_CMD_REQ = Inr c' \<and> quiet_step jc b c'"
proof -
  obtain ds where ds: "table_allocator_client_send_request jc env c TA_SHARED_CMD_REQ = Inr (cemit ds c)"
    "set (sent ds) \<subseteq> {request_datagram jc c TA_SHARED_CMD_REQ}"
    using quiet_request [OF assms(1,2)] by blast
  have "tac_frame c = tac_frame b" by (simp add: assms(3))
  then have "quiet_step jc b (cemit ds c)"
    using ds(2) assms(4) request_frame [of c b jc] unfolding quiet_step_def assms(3) by auto
  with ds(1) show ?thesis by blast
qed

lemma quiet_fail_count:
  assumes "table_allocator_client_check_fail_count c = (go, c')"
  shows "\<exists>es. tac_trace c' = tac_trace c @ es \<and> sent es = [] \<and> tac_frame c' = tac_frame c
    \<and> ta_rt_table (tac_addr c') = ta_rt_table (tac_addr c) \<and> ta_lease_expires (tac_addr c') = ta_lease_expires (tac_addr c)
    \<and> (closing c \<longrightarrow> closing c') \<and> (go \<longrightarrow> tac_trace c' = tac_trace c)"
  using assms by (auto simp: table_allocator_client_check_fail_count_def Let_def split: if_split_asm)

lemma quiet_request_timer:
  assumes "tac_safe c" and "se_timer env = 0"
  shows "\<exists>c'. client_request_timeout_handle_cb jc env c = Inr c' \<and> quiet_step jc c c'"
proof (cases "ta_rt_table (tac_addr c) \<noteq> 0")
  case True
  with quiet_resend [OF assms, of "[]" c jc] show ?thesis by (simp add: client_request_timeout_handle_cb_def)
next
  case False
  obtain go c1 where c1: "table_allocator_client_check_fail_count c = (go, c1)" by fastforce
  from quiet_fail_count [OF this] obtain es where
    es: "tac_trace c1 = tac_trace c @ es" "sent es = []" "tac_frame c1 = tac_frame c"
      "ta_rt_table (tac_addr c1) = ta_rt_table (tac_addr c)" "ta_lease_expires (tac_addr c1) = ta_lease_expires (tac_addr c)"
      "closing c \<longrightarrow> closing c1" by blast
  show ?thesis
  proof (cases go)
    case True
    have safe: "tac_safe c1" using es(3) assms(1) tac_safe_frame by blast
    obtain c' where c': "table_allocator_client_send_request jc env c1 TA_SHARED_CMD_REQ = Inr c'" "quiet_step jc c1 c'"
      using quiet_resend [OF safe assms(2), of "[]" c1 jc] by auto
    moreover have "quiet_step jc c c'"
      using c'(2) es request_frame [OF es(3), of jc] by (auto simp: quiet_step_def)
    ultimately show ?thesis using False True by (simp add: client_request_timeout_handle_cb_def c1)
  next
    case stop: False
    have "quiet_step jc c c1" using es by (auto simp: quiet_step_def)
    with False stop show ?thesis by (simp add: client_request_timeout_handle_cb_def c1)
  qed
qed

lemma quiet_socket_timer:
  assumes "tac_safe c" and "se_timer senv = 0"
  shows "\<exists>c'. client_socket_timeout_cb jc oenv senv c = Inr c' \<and> quiet_step jc c c'"
proof -
  let ?name = "client_socket_name (cstr (ta_ifname (tac_addr c))) (cstr (ta_address_str (tac_addr c))) (ta_family (tac_addr c))"
  obtain ok fd es where o: "open_unix_handle oenv ?name = Inr (ok, fd, es)"
    using open_unix_handle_total by (metis prod_cases3)
  have none: "sent es = []" using sent_open [OF o] .
  have strings: "c_string (ta_address_str (tac_addr c)) = Inr (cstr (ta_address_str (tac_addr c)))"
    "c_string (ta_ifname (tac_addr c)) = Inr (cstr (ta_ifname (tac_addr c)))"
    using assms(1) c_string_terminated by (auto simp: tac_safe_def)
  let ?c = "cemit (es @ [Timer_stop Unix_socket_timeout]) c"
  have "tac_safe ?c" using assms(1) tac_safe_frame by (metis tac_frame_simps(1))
  from quiet_resend [OF this assms(2) refl, of jc] none obtain c' where
    "table_allocator_client_send_request jc senv ?c TA_SHARED_CMD_REQ = Inr c'" "quiet_step jc c c'" by auto
  then show ?thesis
    using o none by (cases ok) (auto simp: client_socket_timeout_cb_def strings quiet_cemit quiet_cemit [of "[]", simplified])
qed

lemma quiet_rules:
  assumes "tac_safe c"
  shows "\<exists>c'. table_allocator_client_netlink_update_rules rcs t c = Inr c' \<and> quiet_step jc c c'
    \<and> (\<exists>es. tac_trace c' = tac_trace c @ es \<and> sent es = [])"
proof -
  have "rt_mnl_socket c" using assms by (simp add: tac_safe_def)
  from sent_rules [OF this, of rcs t] show ?thesis by (fastforce simp: quiet_step_def)
qed

lemma quiet_netlink:
  assumes "tac_safe c" and "se_timer senv = 0" and "list_all attrs_readable ms"
  shows "\<exists>c'. netlink_messages jc rcs senv ms c = Inr c' \<and> quiet_step jc c c'"
  using assms(3)
proof (induction ms)
  case Nil
  then show ?case using quiet_cemit [of "[]"] by simp
next
  case (Cons m ms)
  have fam: "ta_family (tac_addr c) = AF_INET" using assms(1) by (simp add: tac_safe_def)
  have ms: "attrs_readable m" "list_all attrs_readable ms" using Cons.prems by simp_all
  with fam obtain b where b: "ends_lease c m = Inr b" using ends_lease_total by blast
  show ?case
  proof (cases b)
    case False
    with b Cons.IH [OF ms(2)] show ?thesis by (subst netlink_messages_Cons) simp
  next
    case True
    obtain c1 es where c1: "table_allocator_client_netlink_update_rules rcs RTM_DELRULE c = Inr c1" "quiet_step jc c c1"
      "tac_trace c1 = tac_trace c @ es" "sent es = []" using quiet_rules [OF assms(1)] by blast
    then have frame: "tac_frame c1 = tac_frame c" by (simp add: quiet_step_def)
    then have "tac_safe c1" using assms(1) tac_safe_frame by blast
    then obtain ds where ds: "table_allocator_client_send_request jc senv c1 TA_SHARED_CMD_REL = Inr (cemit ds c1)"
      "set (sent ds) \<subseteq> {request_datagram jc c1 TA_SHARED_CMD_REL}" using quiet_request assms(2) by blast
    let ?c = "(cemit [Loop_stop] (cemit ds c1))\<lparr>closing := True\<rparr>"
    have "netlink_messages jc rcs senv [m] c = Inr ?c"
      using b True c1(1) ds(1) by (simp add: ends_lease_def)
    moreover have "quiet_step jc c ?c"
      using c1 ds(2) request_frame [OF frame, of jc] by (auto simp: quiet_step_def)
    ultimately show ?thesis using b True by (subst netlink_messages_Cons) simp
  qed
qed

fun is_reply :: "tac_event \<Rightarrow> bool" where
  "is_reply (Reply env data addr) = True"
| "is_reply _ = False"

lemma quiet_event:
  assumes "tac_safe c" and "tac_admissible jc c e" and "\<not> is_reply e"
  shows "\<exists>c'. tac_handle jc e c = Inr c' \<and> quiet_step jc c c'"
proof (cases e)
  case (Reply_error env nread)
  obtain go c1 where c1: "table_allocator_client_check_fail_count c = (go, c1)" by fastforce
  from quiet_fail_count [OF this] have "quiet_step jc c c1" "quiet_step jc c (client_socket_stop_recv b c1)" for b
    by (auto simp: quiet_step_def client_socket_stop_recv_def)
  moreover have "quiet_step jc c (client_socket_stop_recv b c)" for b
    unfolding client_socket_stop_recv_def by (intro quiet_cemit) simp
  ultimately show ?thesis
    using assms(2) quiet_cemit [of "[]" jc c]
    by (cases go) (auto simp: Reply_error client_socket_recv_cb_def c1)
next
  case (Netlink rcs senv nread msgs)
  then show ?thesis
    using quiet_netlink [OF assms(1), of senv msgs jc rcs] quiet_cemit [of "[]" jc c] assms(2)
    by (auto simp: table_allocator_client_netlink_recv_cb_def)
next
  case (Rules_timer rcs)
  then show ?thesis using quiet_rules [OF assms(1), of rcs RTM_NEWRULE jc]
    by (auto simp: table_allocator_client_netlink_timeout_cb_def)
next
  case Socket_closed
  then show ?thesis using quiet_cemit [of "[]" jc c] quiet_cemit [of "[Udp_init Unix_socket, Timer_start Unix_socket_timeout 100 0]" jc c]
    by (simp add: client_socket_handle_close_cb_def)
qed (use assms quiet_socket_timer quiet_request_timer in simp_all)

lemma accept_lease_sent:
  assumes "tac_safe c" and "re_daemon env = 0"
  shows "\<exists>d es. accept_lease env (Some sender) t c = Inr d \<and> tac_frame d = tac_frame c \<and> closing d = closing c
    \<and> tac_trace d = tac_trace c @ es \<and> sent es = [] \<and> ta_rt_table (tac_addr d) = t
    \<and> ta_lease_expires (tac_addr d) = ta_lease_expires (tac_addr c)"
proof -
  let ?c = "c\<lparr>tac_addr := (tac_addr c)\<lparr>ta_rt_table := t\<rparr>, num_failed := 0\<rparr>"
  define es where "es = Print_table t # (if \<not> daemonized c \<and> daemonize c then [Daemonize] else [])"
  have sock: "rt_mnl_socket (cemit es ?c)" using assms(1) by (simp add: tac_safe_def)
  obtain a ds where ds: "table_allocator_client_netlink_update_rules (re_rules env) RTM_NEWRULE (cemit es ?c) =
      Inr (cemit ds ((cemit es ?c)\<lparr>tac_addr := (tac_addr (cemit es ?c))\<lparr>rules_added := a\<rparr>\<rparr>))" "sent ds = []"
    using sent_rules [OF sock] by blast
  let ?t = "[Timer_start Request_timeout (unat (renewal_timeout (ta_lease_expires (tac_addr c)) (re_tv_sec env))) 0]"
  define d where "d = (if rules_added (tac_addr c) then cemit (es @ ?t) (?c\<lparr>daemonized := True\<rparr>)
    else cemit (es @ ds @ ?t) (?c\<lparr>tac_addr := (tac_addr ?c)\<lparr>rules_added := a\<rparr>, daemonized := True\<rparr>))"
  have "accept_lease env (Some sender) t c = Inr d"
    using ds(1) assms(2) by (auto simp: accept_lease_def d_def es_def Let_def cemit_def)
  moreover have "sent es = []" by (simp add: es_def)
  ultimately show ?thesis
    using ds(2) by (intro exI [of _ d] exI [of _ "if rules_added (tac_addr c) then es @ ?t else es @ ds @ ?t"])
      (auto simp: d_def tac_frame_def)
qed

text \<open>A reply of the server.\<close>

lemma reply_event:
  assumes "jsonc_ok jc" and "tac_safe c" and "data = flat_text (response_fields t e)" and "t < 2 ^ 31" and "e < 2 ^ 31"
    and "re_daemon env = 0"
  shows "\<exists>c' es. tac_handle jc (Reply env data (Some sender)) c = Inr c' \<and> tac_safe c'
    \<and> identity c' = identity c \<and> closing c' = closing c
    \<and> tac_trace c' = tac_trace c @ es \<and> sent es = []
    \<and> (if closing c then ta_rt_table (tac_addr c') = ta_rt_table (tac_addr c) \<and> ta_lease_expires (tac_addr c') = ta_lease_expires (tac_addr c)
       else ta_rt_table (tac_addr c') = (if t = 0 then ta_rt_table (tac_addr c) else t) \<and> ta_lease_expires (tac_addr c') = e)"
proof (cases "closing c")
  case True
  then have "tac_handle jc (Reply env data (Some sender)) c = Inr (client_receive_into data c)"
    by (simp add: client_socket_recv_cb_def client_receive_into_def client_socket_alloc_cb_def)
  moreover have "tac_safe (client_receive_into data c)"
    using response_text_length [of t e] assms(2,3) by (intro client_receive_safe) (simp_all add: size_defs)
  ultimately show ?thesis
    using True by (simp add: client_receive_into_def client_socket_alloc_cb_def identity_def)
next
  case False
  let ?c = "(client_receive_into data c)\<lparr>tac_addr := (tac_addr c)\<lparr>ta_lease_expires := e\<rparr>\<rparr>"
  have c: "tac_trace ?c = tac_trace c" "closing ?c = closing c" "tac_addr ?c = (tac_addr c)\<lparr>ta_lease_expires := e\<rparr>"
    "identity ?c = identity c"
    by (simp_all add: client_receive_into_def client_socket_alloc_cb_def identity_def)
  have "tac_safe (client_receive_into data c)"
    using response_text_length [of t e] assms(2,3) by (intro client_receive_safe) (simp_all add: size_defs)
  then have safe: "tac_safe ?c" by (simp add: tac_safe_def client_receive_into_def client_socket_alloc_cb_def)
  show ?thesis
  proof (cases "t = 0")
    case True
    have "tac_handle jc (Reply env data (Some sender)) c = Inr (retransmit_later ?c)"
      unfolding reply_received [OF assms(1,2) False assms(3-5)] using True by (simp add: Let_def)
    moreover have "tac_safe (retransmit_later ?c)"
      using safe tac_safe_frame [of "retransmit_later ?c" ?c] by (simp add: retransmit_later_def)
    moreover have "identity (retransmit_later ?c) = identity c"
      using identity_frame [of "retransmit_later ?c" ?c] c(4) by (simp add: retransmit_later_def)
    ultimately show ?thesis using False True c by (auto simp: retransmit_later_def)
  next
    case lease: False
    obtain d es where d: "accept_lease env (Some sender) t ?c = Inr d" "tac_frame d = tac_frame ?c" "closing d = closing ?c"
      "tac_trace d = tac_trace ?c @ es" "sent es = []" "ta_rt_table (tac_addr d) = t"
      "ta_lease_expires (tac_addr d) = ta_lease_expires (tac_addr ?c)"
      using accept_lease_sent [OF safe assms(6)] by metis
    have "tac_handle jc (Reply env data (Some sender)) c = Inr d"
      unfolding reply_received [OF assms(1,2) False assms(3-5)] using lease d(1) by (simp add: Let_def)
    moreover have "tac_safe d" using safe d(2) tac_safe_frame by blast
    moreover have "identity d = identity c" using identity_frame [OF d(2)] c(4) by simp
    ultimately show ?thesis using False lease d c by auto
  qed
qed

end
