(* ===== verification/Network.thy ===== *)
theory Network
  imports Network_Server Network_Client
begin

text \<open>
  The system: one server and any number of clients, each in its own process, and the datagrams
  between them. A datagram is its sender's socket name, its destination and its text, as the
  code gives them to \<open>sendto\<close> when the call does not fail, and it may arrive at the socket of that name at any time, any number
  of times, in any order, or never; the events of the processes interleave freely. The network is
  again an event-driven program, so that its safety is an instance of \<open>reactive\<close>.
\<close>

record net =
  net_server :: "int \<times> tas_ctx"
  net_clients :: "tac_ctx list"
  datagrams :: "(string \<times> string \<times> string) list"

datatype net_event =
    Server_event srv_event
  | Server_receive recv_env nat
  | Client_event nat tac_event
  | Client_receive nat reply_env nat

definition server_name :: "int \<times> tas_ctx \<Rightarrow> string" where
  "server_name s = cstr (socket_path (snd s))"

definition own_socket :: "tac_ctx \<Rightarrow> string" where
  "own_socket c = client_socket_name (cstr (ta_ifname (tac_addr c))) (cstr (ta_address_str (tac_addr c))) (ta_family (tac_addr c))"

text \<open>What a handler has sent is at the end of its trace.\<close>

definition posted :: "string \<Rightarrow> effect list \<Rightarrow> effect list \<Rightarrow> (string \<times> string \<times> string) list" where
  "posted from_name old new = map (Pair from_name) (sent (drop (length old) new))"

definition server_moves :: "net \<Rightarrow> int \<times> tas_ctx \<Rightarrow> net" where
  "server_moves n s = n\<lparr>net_server := s,
     datagrams := datagrams n @ posted (server_name s) (trace (snd (net_server n))) (trace (snd s))\<rparr>"

definition client_moves :: "net \<Rightarrow> nat \<Rightarrow> tac_ctx \<Rightarrow> net" where
  "client_moves n i c = n\<lparr>net_clients := (net_clients n)[i := c],
     datagrams := datagrams n @ posted (own_socket c) (tac_trace (net_clients n ! i)) (tac_trace c)\<rparr>"

fun net_handle :: "jsonc \<Rightarrow> net_event \<Rightarrow> net \<Rightarrow> net res" where
  "net_handle jc (Server_event e) n =
     bindR (srv_handle jc e (net_server n)) (\<lambda>s. Inr (server_moves n s))"
| "net_handle jc (Server_receive env k) n = (case datagrams n ! k of (sender, dest, data) \<Rightarrow>
     bindR (srv_handle jc (Datagram env data (Some sender)) (net_server n)) (\<lambda>s. Inr (server_moves n s)))"
| "net_handle jc (Client_event i e) n =
     bindR (tac_handle jc e (net_clients n ! i)) (\<lambda>c. Inr (client_moves n i c))"
| "net_handle jc (Client_receive i env k) n = (case datagrams n ! k of (sender, dest, data) \<Rightarrow>
     bindR (tac_handle jc (Reply env data (Some sender)) (net_clients n ! i)) (\<lambda>c. Inr (client_moves n i c)))"

text \<open>Whose datagram it is: the name it is sent to.\<close>

definition addressed :: "net \<Rightarrow> nat \<Rightarrow> string \<Rightarrow> bool" where
  "addressed n k name \<longleftrightarrow> k < length (datagrams n) \<and> fst (snd (datagrams n ! k)) = name"

fun net_admissible :: "jsonc \<Rightarrow> net \<Rightarrow> net_event \<Rightarrow> bool" where
  "net_admissible jc n (Server_event e) = (srv_admissible jc (net_server n) e \<and> \<not> is_datagram e)"
| "net_admissible jc n (Server_receive env k) =
     (addressed n k (server_name (net_server n)) \<and> clock (rcv_req env) \<in> {None, Some (fst (net_server n))})"
| "net_admissible jc n (Client_event i e) =
     (i < length (net_clients n) \<and> tac_admissible jc (net_clients n ! i) e \<and> \<not> is_reply e)"
| "net_admissible jc n (Client_receive i env k) =
     (i < length (net_clients n) \<and> addressed n k (own_socket (net_clients n ! i)) \<and> re_daemon env = 0)"

text \<open>
  For safety a datagram may arrive at any time. libuv delivers it only to a process that has
  started to receive and has not stopped.
\<close>

definition net_delivers :: "jsonc \<Rightarrow> net \<Rightarrow> net_event \<Rightarrow> bool" where
  "net_delivers jc n e \<longleftrightarrow> net_admissible jc n e \<and> (case e of
     Server_receive env k \<Rightarrow> receiving (trace (snd (net_server n)))
   | Client_receive i env k \<Rightarrow> receiving (tac_trace (net_clients n ! i))
   | _ \<Rightarrow> True)"

section \<open>The invariant\<close>

definition tac_key :: "tac_ctx \<Rightarrow> client_key" where
  "tac_key c = (uint (ta_family (tac_addr c)), cstr (ta_ifname (tac_addr c)), cstr (ta_address_str (tac_addr c)))"

text \<open>
  A lease \<open>(t, e)\<close> of a client is backed: once the client is closing, or the lease has ended,
  nothing is promised; until then the server has it recorded for this client, at least until \<open>e\<close>.
\<close>

definition backed :: "int \<times> tas_ctx \<Rightarrow> tac_ctx \<Rightarrow> u32 \<Rightarrow> u32 \<Rightarrow> bool" where
  "backed s c t e \<longleftrightarrow> closing c \<or> t = 0 \<or> uint e \<le> fst s
     \<or> (\<exists>r \<in> set (rt_rows (snd s)). client_of r = tac_key c \<and> row_tbl r = t \<and> uint e \<le> LeaseExpires r)"

definition tac_good :: "tac_ctx \<Rightarrow> bool" where
  "tac_good c \<longleftrightarrow> tac_safe c \<and> CHR ''-'' \<notin> set (cstr (ta_address_str (tac_addr c)))
     \<and> req_strings (cstr (ta_address_str (tac_addr c))) (cstr (ta_ifname (tac_addr c))) (cstr (ta_tag (tac_addr c)))"

definition request_ok :: "jsonc \<Rightarrow> tac_ctx \<Rightarrow> string \<Rightarrow> bool" where
  "request_ok jc c d \<longleftrightarrow> d = request_text jc c TA_SHARED_CMD_REQ
     \<or> d = request_text jc c TA_SHARED_CMD_REL \<and> closing c"

definition reply_ok :: "int \<times> tas_ctx \<Rightarrow> tac_ctx \<Rightarrow> string \<Rightarrow> bool" where
  "reply_ok s c d \<longleftrightarrow> (\<exists>t e. d = flat_text (response_fields t e) \<and> t < 2 ^ 31 \<and> e < 2 ^ 31
     \<and> (t = 0 \<longrightarrow> e = 0) \<and> backed s c t e)"

text \<open>A datagram is a request to the server, or a reply of the server, of one of the clients.\<close>

definition datagram_ok :: "jsonc \<Rightarrow> int \<times> tas_ctx \<Rightarrow> tac_ctx list \<Rightarrow> string \<times> string \<times> string \<Rightarrow> bool" where
  "datagram_ok jc s cs m = (case m of (sender, dest, data) \<Rightarrow> \<exists>c \<in> set cs.
     sender = own_socket c \<and> dest = server_name s \<and> request_ok jc c data
     \<or> sender = server_name s \<and> dest = own_socket c \<and> reply_ok s c data)"

text \<open>The clients are pointed at the server, and are told apart by their interface, address and family.\<close>

definition net_inv :: "jsonc \<Rightarrow> net \<Rightarrow> bool" where
  "net_inv jc n \<longleftrightarrow> srv_safe (net_server n) \<and> lease_bound (fst (net_server n)) (snd (net_server n))
     \<and> range_ok (snd (net_server n)) \<and> list_all tac_good (net_clients n) \<and> distinct (map tac_key (net_clients n))
     \<and> (\<forall>c \<in> set (net_clients n). backed (net_server n) c (ta_rt_table (tac_addr c)) (ta_lease_expires (tac_addr c))
          \<and> cstr (destination c) = server_name (net_server n) \<and> own_socket c \<noteq> server_name (net_server n))
     \<and> (\<forall>m \<in> set (datagrams n). datagram_ok jc (net_server n) (net_clients n) m)"

section \<open>Lemmas\<close>

lemma identity_key:
  assumes "identity c' = identity c"
  shows "tac_key c' = tac_key c" "own_socket c' = own_socket c"
    "tac_safe c' \<Longrightarrow> tac_good c \<Longrightarrow> tac_good c'" "cstr (destination c') = cstr (destination c)"
  using assms by (simp_all add: identity_def tac_key_def own_socket_def tac_good_def)

lemma posted_append [simp]:
  "posted name xs (xs @ ys) = map (Pair name) (sent ys)"
  "posted name (xs @ ys) (xs @ ys @ zs) = map (Pair name) (sent zs)"
  by (simp_all add: posted_def)

text \<open>The clients of a system have different sockets.\<close>

lemma own_socket_inject:
  assumes "tac_good c" and "tac_good c'" and "own_socket c = own_socket c'"
  shows "tac_key c = tac_key c'"
  using assms client_socket_name_inject [of "cstr (ta_ifname (tac_addr c))" "cstr (ta_address_str (tac_addr c))" AF_INET
      "cstr (ta_ifname (tac_addr c'))" "cstr (ta_address_str (tac_addr c'))" AF_INET]
  by (simp add: tac_good_def tac_safe_def own_socket_def tac_key_def req_strings_def)

lemma same_client:
  assumes "net_inv jc n" and "c \<in> set (net_clients n)" and "c' \<in> set (net_clients n)"
    and "tac_key c = tac_key c' \<or> own_socket c = own_socket c'"
  shows "c = c'"
proof -
  have "inj_on tac_key (set (net_clients n))" "tac_good c" "tac_good c'"
    using assms(1-3) by (simp_all add: net_inv_def distinct_map list_all_iff)
  moreover from this have "tac_key c = tac_key c'" using assms(4) own_socket_inject by blast
  ultimately show ?thesis using assms(2,3) by (simp add: inj_on_def)
qed

lemma request_text_flat:
  assumes "jsonc_ok jc" and "tac_good c"
  shows "request_text jc c cmd = flat_text (request_fields (cstr (ta_address_str (tac_addr c)))
    (cstr (ta_ifname (tac_addr c))) (cstr (ta_tag (tac_addr c))) (ta_family (tac_addr c)) cmd)"
proof -
  have "flat (request_fields (cstr (ta_address_str (tac_addr c)))
    (cstr (ta_ifname (tac_addr c))) (cstr (ta_tag (tac_addr c))) (ta_family (tac_addr c)) cmd)"
    using assms(2) by (intro request_flat) (simp_all add: tac_good_def req_strings_def)
  then show ?thesis
    using assms(1) flat_text_no_nul by (simp add: request_text_def jsonc_ok_def cstr_idem)
qed

lemma request_text_fits:
  assumes "req_strings a i t"
  shows "length (flat_text (request_fields a i t (f :: u8) cmd)) < CLIENT_REQ_BUFFER_SIZE"
proof -
  have "length a < 46" "length i < 16" "length t < 128"
    using assms by (simp_all add: req_strings_def size_defs)
  moreover have "length (dec (unat w)) \<le> 3" for w :: u8
  proof (rule length_dec_3)
    have "unat w < 2 ^ 8" using unsigned_less [of w] by simp
    then show "unat w < 1000" by simp
  qed
  from this [of f] this [of cmd] this [of 1] calculation show ?thesis
    by (simp add: flat_text_def request_fields_def member_text_def quoted_def key_defs cmd_defs size_defs)
qed

text \<open>Being backed survives what the server and the client do.\<close>

lemma backed_server:
  assumes "backed (now, ctx) c t e" and "live_kept now ctx ctx'" and "now \<le> now'"
  shows "backed (now', ctx') c t e"
proof (cases "closing c \<or> t = 0 \<or> uint e \<le> now")
  case True
  with assms(3) show ?thesis by (auto simp: backed_def)
next
  case False
  with assms(1) obtain r where r: "r \<in> set (rt_rows ctx)" "client_of r = tac_key c" "row_tbl r = t" "uint e \<le> LeaseExpires r"
    by (auto simp: backed_def)
  with False have "now < LeaseExpires r" by simp
  with assms(2) r obtain q where "q \<in> set (rt_rows ctx')" "client_of q = tac_key c" "row_tbl q = t" "uint e \<le> LeaseExpires q"
    unfolding live_kept_def by fastforce
  then show ?thesis by (auto simp: backed_def)
qed

lemma backed_release:
  assumes "backed (now, ctx) c t e" and "tac_key c \<noteq> k"
    and "\<forall>r \<in> set (rt_rows ctx). client_of r \<noteq> k \<longrightarrow> r \<in> set (rt_rows ctx')"
  shows "backed (now, ctx') c t e"
  using assms by (fastforce simp: backed_def)

lemma backed_client:
  "backed s c t e \<Longrightarrow> tac_key c' = tac_key c \<Longrightarrow> (closing c \<longrightarrow> closing c') \<Longrightarrow> backed s c' t e"
  by (auto simp: backed_def)

lemma reply_ok_client:
  "reply_ok s c d \<Longrightarrow> tac_key c' = tac_key c \<Longrightarrow> (closing c \<longrightarrow> closing c') \<Longrightarrow> reply_ok s c' d"
  unfolding reply_ok_def using backed_client by blast

lemma request_ok_client:
  "request_ok jc c d \<Longrightarrow> request_text jc c' = request_text jc c \<Longrightarrow> (closing c \<longrightarrow> closing c') \<Longrightarrow> request_ok jc c' d"
  by (auto simp: request_ok_def)

text \<open>Datagrams stay what they are when the server or a client moves on.\<close>

lemma datagram_server:
  assumes "datagram_ok jc s cs m" and "server_name s' = server_name s"
    and "\<And>c t e. c \<in> set cs \<Longrightarrow> backed s c t e \<Longrightarrow> backed s' c t e"
  shows "datagram_ok jc s' cs m"
proof -
  have "reply_ok s' c d" if "c \<in> set cs" "reply_ok s c d" for c d
    using that assms(3) unfolding reply_ok_def by blast
  then show ?thesis using assms(1,2) unfolding datagram_ok_def by (auto split: prod.splits)
qed

lemma datagram_client:
  assumes "datagram_ok jc s cs m" and "i < length cs" and "identity c' = identity (cs ! i)"
    and "closing (cs ! i) \<longrightarrow> closing c'"
  shows "datagram_ok jc s (cs[i := c']) m"
proof -
  note key = identity_key [OF assms(3)]
  have step: "\<exists>c2 \<in> set (cs[i := c']). own_socket c2 = own_socket c \<and> (request_ok jc c d \<longrightarrow> request_ok jc c2 d)
      \<and> (reply_ok s c d \<longrightarrow> reply_ok s c2 d)" if c: "c \<in> set cs" for c d
  proof (cases "c = cs ! i")
    case True
    have "request_text jc c' = request_text jc c"
      using assms(3) by (simp add: True identity_def request_text_def fun_eq_iff)
    then have "request_ok jc c d \<longrightarrow> request_ok jc c' d" "reply_ok s c d \<longrightarrow> reply_ok s c' d"
      using request_ok_client reply_ok_client key(1) assms(4) True by blast+
    moreover have "c' \<in> set (cs[i := c'])" using assms(2) by (simp add: set_update_memI)
    ultimately show ?thesis using key(2) True by auto
  next
    case False
    with c obtain j where "j < length cs" "j \<noteq> i" "cs ! j = c" by (metis in_set_conv_nth)
    then have "c \<in> set (cs[i := c'])" by (metis length_list_update nth_list_update_neq nth_mem)
    then show ?thesis by blast
  qed
  obtain sender dest data where m: "m = (sender, dest, data)" by (rule prod_cases3)
  from assms(1) m obtain c where c: "c \<in> set cs"
    "sender = own_socket c \<and> dest = server_name s \<and> request_ok jc c data
      \<or> sender = server_name s \<and> dest = own_socket c \<and> reply_ok s c data"
    by (auto simp: datagram_ok_def)
  obtain c2 where "c2 \<in> set (cs[i := c'])" "own_socket c2 = own_socket c" "request_ok jc c data \<longrightarrow> request_ok jc c2 data"
    "reply_ok s c data \<longrightarrow> reply_ok s c2 data" using step [OF c(1)] by blast
  with c(2) show ?thesis unfolding datagram_ok_def m prod.case by (intro bexI [of _ c2]) auto
qed

text \<open>The server's side of a step: what was backed still is.\<close>

lemma net_inv_server:
  assumes "net_inv jc n" and "srv_safe s'" and "lease_bound (fst s') (snd s')" and "range_ok (snd s')"
    and "server_name s' = server_name (net_server n)"
    and "\<And>c t e. c \<in> set (net_clients n) \<Longrightarrow> backed (net_server n) c t e \<Longrightarrow> backed s' c t e"
    and "trace (snd s') = trace (snd (net_server n)) @ es"
    and "\<And>dest d. (dest, d) \<in> set (sent es) \<Longrightarrow> \<exists>c \<in> set (net_clients n). dest = own_socket c \<and> reply_ok s' c d"
  shows "net_inv jc (server_moves n s')"
proof -
  have "datagram_ok jc s' (net_clients n) m" if "m \<in> set (datagrams n)" for m
    using assms(1) that datagram_server [OF _ assms(5,6)] by (auto simp: net_inv_def)
  moreover have "datagram_ok jc s' (net_clients n) (server_name s', d)" if "d \<in> set (sent es)" for d
    using assms(8) [of "fst d" "snd d"] that unfolding datagram_ok_def by (auto split: prod.splits)
  ultimately show ?thesis
    using assms(1-7) by (auto simp: net_inv_def server_moves_def)
qed

text \<open>The client's side of a step.\<close>

lemma net_inv_client:
  assumes "net_inv jc n" and "i < length (net_clients n)" and "identity c' = identity (net_clients n ! i)"
    and "tac_safe c'" and "closing (net_clients n ! i) \<longrightarrow> closing c'"
    and "backed (net_server n) c' (ta_rt_table (tac_addr c')) (ta_lease_expires (tac_addr c'))"
    and "tac_trace c' = tac_trace (net_clients n ! i) @ es"
    and "\<And>dest d. (dest, d) \<in> set (sent es) \<Longrightarrow> dest = cstr (destination c') \<and> request_ok jc c' d"
  shows "net_inv jc (client_moves n i c')"
proof -
  let ?cs = "(net_clients n)[i := c']"
  note key = identity_key [OF assms(3)]
  have old: "tac_good c" "backed (net_server n) c (ta_rt_table (tac_addr c)) (ta_lease_expires (tac_addr c))"
    "cstr (destination c) = server_name (net_server n)" "own_socket c \<noteq> server_name (net_server n)"
    if "c \<in> set (net_clients n)" for c
    using assms(1) that by (simp_all add: net_inv_def list_all_iff)
  note mine = old [OF nth_mem [OF assms(2)]]
  have new: "tac_good c \<and> backed (net_server n) c (ta_rt_table (tac_addr c)) (ta_lease_expires (tac_addr c))
      \<and> cstr (destination c) = server_name (net_server n) \<and> own_socket c \<noteq> server_name (net_server n)"
    if "c \<in> set ?cs" for c
  proof (cases "c = c'")
    case True
    then show ?thesis using key mine assms(4,6) by simp
  next
    case False
    then have "c \<in> set (net_clients n)" using that set_update_subset_insert by fastforce
    then show ?thesis using old by blast
  qed
  have "map tac_key ?cs = map tac_key (net_clients n)"
    using assms(2) key(1) by (simp add: map_update list_update_same_conv)
  moreover have "datagram_ok jc (net_server n) ?cs m" if "m \<in> set (datagrams n)" for m
    using assms(1) that datagram_client [OF _ assms(2,3,5)] by (auto simp: net_inv_def)
  moreover have "datagram_ok jc (net_server n) ?cs (own_socket c', d)" if "d \<in> set (sent es)" for d
  proof -
    have "c' \<in> set ?cs" using assms(2) by (simp add: set_update_memI)
    then show ?thesis
      using assms(8) [of "fst d" "snd d"] that key(4) mine(3) unfolding datagram_ok_def by (auto split: prod.splits)
  qed
  ultimately show ?thesis
    using assms(1,7) new by (auto simp: net_inv_def client_moves_def list_all_iff)
qed

section \<open>Steps\<close>

lemma server_inv:
  assumes "net_inv jc n"
  shows "srv_safe (net_server n)" "lease_bound (fst (net_server n)) (snd (net_server n))" "range_ok (snd (net_server n))"
  using assms by (simp_all add: net_inv_def)

lemma client_inv:
  assumes "net_inv jc n" and "i < length (net_clients n)"
  shows "tac_good (net_clients n ! i)" "tac_safe (net_clients n ! i)"
    "backed (net_server n) (net_clients n ! i) (ta_rt_table (tac_addr (net_clients n ! i))) (ta_lease_expires (tac_addr (net_clients n ! i)))"
    "cstr (destination (net_clients n ! i)) = server_name (net_server n)"
  using assms by (simp_all add: net_inv_def list_all_length tac_good_def)

lemma server_event_step:
  assumes "net_inv jc n" and "net_admissible jc n (Server_event e)"
  shows "\<exists>n'. net_handle jc (Server_event e) n = Inr n' \<and> net_inv jc n'"
proof -
  obtain now ctx where s: "net_server n = (now, ctx)" by fastforce
  note inv = server_inv [OF assms(1), unfolded s fst_conv snd_conv]
  obtain now' ctx' es where run: "srv_handle jc e (now, ctx) = Inr (now', ctx')" "srv_safe (now', ctx')" "now \<le> now'"
    "lease_bound now' ctx'" "live_kept now ctx ctx'" "same_io ctx ctx'" "trace ctx' = trace ctx @ es" "sent es = []"
    using quiet_srv_event [OF inv(1,2), of jc e] assms(2) by (auto simp: s)
  have "net_inv jc (server_moves n (now', ctx'))"
    using run inv(3) range_ok_io [OF run(6)] backed_server [OF _ run(5,3)]
    by (intro net_inv_server [OF assms(1), where es = es]) (auto simp: s server_name_def same_io_def)
  then show ?thesis using run(1) by (simp add: s)
qed

lemma server_receive_step:
  assumes "jsonc_ok jc" and "net_inv jc n" and "net_admissible jc n (Server_receive env k)"
  shows "\<exists>n'. net_handle jc (Server_receive env k) n = Inr n' \<and> net_inv jc n'"
proof -
  obtain now ctx where s: "net_server n = (now, ctx)" by fastforce
  obtain sender data where m: "datagrams n ! k = (sender, server_name (net_server n), data)"
    using assms(3) by (cases "datagrams n ! k") (auto simp: addressed_def)
  have "(sender, server_name (net_server n), data) \<in> set (datagrams n)"
    using assms(3) m by (metis addressed_def net_admissible.simps(2) nth_mem)
  then obtain c where c: "c \<in> set (net_clients n)" "sender = own_socket c" "request_ok jc c data"
    using assms(2) by (fastforce simp: net_inv_def datagram_ok_def)
  have good: "tac_good c" using c(1) assms(2) by (simp add: net_inv_def list_all_iff)
  note inv = server_inv [OF assms(2), unfolded s fst_conv snd_conv]
  let ?a = "cstr (ta_address_str (tac_addr c))" and ?i = "cstr (ta_ifname (tac_addr c))" and ?t = "cstr (ta_tag (tac_addr c))"
  have strs: "req_strings ?a ?i ?t" using good by (simp add: tac_good_def)
  from c(3) obtain cmd where cmd: "data = request_text jc c cmd" "cmd = TA_SHARED_CMD_REQ \<or> cmd = TA_SHARED_CMD_REL"
    "cmd \<noteq> TA_SHARED_CMD_REQ \<longrightarrow> closing c" by (auto simp: request_ok_def)
  have data: "data = flat_text (request_fields ?a ?i ?t (ta_family (tac_addr c)) cmd)"
    using request_text_flat [OF assms(1) good] cmd(1) by simp
  have "length data < CLIENT_REQ_BUFFER_SIZE" unfolding data by (rule request_text_fits [OF strs])
  moreover have "clock (rcv_req env) \<in> {None, Some now}" using assms(3) by (simp add: s)
  moreover have key: "tac_key c = (uint (ta_family (tac_addr c)), ?i, ?a)" by (simp add: tac_key_def)
  ultimately obtain ctx' es where run: "srv_handle jc (Datagram env data (Some sender)) (now, ctx) = Inr (now, ctx')"
    "srv_safe (now, ctx')" "lease_bound now ctx'" "range_ok ctx' = range_ok ctx" "socket_path ctx' = socket_path ctx" "trace ctx' = trace ctx @ es"
    and kept: "rows_kept cmd (tac_key c) now ctx ctx'"
    and replies: "\<forall>d \<in> set (sent es). \<exists>t e. d = (sender, flat_text (response_fields t e)) \<and> granted_to (tac_key c) ctx' t e"
    using served_request [OF assms(1) strs inv(1,2) _ data _ cmd(2), of env "tac_key c" sender] by blast
  have keep: "backed (now, ctx') b t e" if b: "b \<in> set (net_clients n)" "backed (now, ctx) b t e" for b t e
  proof (cases "cmd = TA_SHARED_CMD_REQ \<or> tac_key b \<noteq> tac_key c")
    case True
    with kept backed_server [OF b(2)] backed_release [OF b(2)] show ?thesis by (cases "cmd = TA_SHARED_CMD_REQ") (simp_all add: rows_kept_def)
  next
    case False
    then have "b = c" using same_client [OF assms(2) b(1) c(1)] by blast
    with False cmd(3) show ?thesis by (simp add: backed_def)
  qed
  have reply: "\<exists>c \<in> set (net_clients n). dest = own_socket c \<and> reply_ok (now, ctx') c d" if sent: "(dest, d) \<in> set (sent es)" for dest d
  proof -
    from bspec [OF replies sent] obtain t e where te: "dest = sender" "d = flat_text (response_fields t e)"
      "granted_to (tac_key c) ctx' t e" by blast
    then have "t < 2 ^ 31" using table_bound [of ctx' t] run(4) inv(3) by (cases "t = 0") (auto simp: granted_to_def)
    moreover have "backed (now, ctx') c t e" "t = 0 \<longrightarrow> e = 0" "e < 2 ^ 31"
      using te(3) by (auto simp: backed_def granted_to_def)
    ultimately show ?thesis unfolding reply_ok_def using te c(1,2) by blast
  qed
  have "net_inv jc (server_moves n (now, ctx'))"
    using run keep reply c(1) inv(3) by (intro net_inv_server [OF assms(2), where es = es]) (auto simp: s server_name_def)
  then show ?thesis using run(1) by (simp add: m s del: srv_handle.simps)
qed

lemma client_event_step:
  assumes "net_inv jc n" and "net_admissible jc n (Client_event i e)"
  shows "\<exists>n'. net_handle jc (Client_event i e) n = Inr n' \<and> net_inv jc n'"
proof -
  let ?c = "net_clients n ! i"
  have i: "i < length (net_clients n)" and e: "tac_admissible jc ?c e" "\<not> is_reply e" using assms(2) by simp_all
  note inv = client_inv [OF assms(1) i]
  obtain c' where c': "tac_handle jc e ?c = Inr c'" "quiet_step jc ?c c'" using quiet_event [OF inv(2) e] by blast
  then have frame: "tac_frame c' = tac_frame ?c" and held: "ta_rt_table (tac_addr c') = ta_rt_table (tac_addr ?c)"
    "ta_lease_expires (tac_addr c') = ta_lease_expires (tac_addr ?c)" "closing ?c \<longrightarrow> closing c'"
    by (simp_all add: quiet_step_def)
  note same = identity_frame [OF frame]
  from c'(2) obtain es where es: "tac_trace c' = tac_trace ?c @ es" "\<forall>d \<in> set (sent es).
        d = request_datagram jc ?c TA_SHARED_CMD_REQ \<or> d = request_datagram jc ?c TA_SHARED_CMD_REL \<and> closing c'"
    by (auto simp: quiet_step_def)
  have "net_inv jc (client_moves n i c')"
  proof (rule net_inv_client [OF assms(1) i same _ held(3) _ es(1)])
    show "tac_safe c'" using inv(2) frame tac_safe_frame by blast
    show "backed (net_server n) c' (ta_rt_table (tac_addr c')) (ta_lease_expires (tac_addr c'))"
      unfolding held(1,2) using backed_client [OF inv(3) identity_key(1) [OF same] held(3)] .
    show "dest = cstr (destination c') \<and> request_ok jc c' d" if sent: "(dest, d) \<in> set (sent es)" for dest d
      using bspec [OF es(2) sent] unfolding request_frame [OF frame, symmetric]
      by (auto simp: request_datagram_def request_ok_def)
  qed
  then show ?thesis using c'(1) by simp
qed

lemma client_receive_step:
  assumes "jsonc_ok jc" and "net_inv jc n" and "net_admissible jc n (Client_receive i env k)"
  shows "\<exists>n'. net_handle jc (Client_receive i env k) n = Inr n' \<and> net_inv jc n'"
proof -
  let ?c = "net_clients n ! i"
  obtain sender data where m: "datagrams n ! k = (sender, own_socket ?c, data)"
    using assms(3) by (cases "datagrams n ! k") (auto simp: addressed_def)
  have i: "i < length (net_clients n)" and daemon: "re_daemon env = 0" using assms(3) by simp_all
  have "(sender, own_socket ?c, data) \<in> set (datagrams n)"
    using assms(3) m by (metis addressed_def net_admissible.simps(4) nth_mem)
  then have "datagram_ok jc (net_server n) (net_clients n) (sender, own_socket ?c, data)" using assms(2) by (simp add: net_inv_def)
  moreover have "own_socket ?c \<noteq> server_name (net_server n)" using assms(2) nth_mem [OF i] by (simp add: net_inv_def)
  ultimately obtain b where "b \<in> set (net_clients n)" "own_socket ?c = own_socket b" "reply_ok (net_server n) b data"
    by (auto simp: datagram_ok_def)
  then have "reply_ok (net_server n) ?c data" using same_client [OF assms(2) nth_mem [OF i]] by metis
  then obtain t f where te: "data = flat_text (response_fields t f)" "t < 2 ^ 31" "f < 2 ^ 31" "t = 0 \<longrightarrow> f = 0"
    "backed (net_server n) ?c t f" by (auto simp: reply_ok_def)
  note inv = client_inv [OF assms(2) i]
  obtain c' es where c': "tac_handle jc (Reply env data (Some sender)) ?c = Inr c'" "tac_safe c'"
    "identity c' = identity ?c" "closing c' = closing ?c" "tac_trace c' = tac_trace ?c @ es" "sent es = []"
    "if closing ?c then ta_rt_table (tac_addr c') = ta_rt_table (tac_addr ?c) \<and> ta_lease_expires (tac_addr c') = ta_lease_expires (tac_addr ?c)
     else ta_rt_table (tac_addr c') = (if t = 0 then ta_rt_table (tac_addr ?c) else t) \<and> ta_lease_expires (tac_addr c') = f"
    using reply_event [OF assms(1) inv(2) te(1-3) daemon] by metis
  have "0 \<le> fst (net_server n)" using server_inv(1) [OF assms(2)] by (auto simp: srv_safe_def clock_ok_def)
  then have "backed (net_server n) c' (ta_rt_table (tac_addr c')) (ta_lease_expires (tac_addr c'))"
    using c'(4,7) identity_key(1) [OF c'(3)] te(4,5) by (auto simp: backed_def split: if_splits)
  then have "net_inv jc (client_moves n i c')"
    using c'(4,6) by (intro net_inv_client [OF assms(2) i c'(3,2) _ _ c'(5)]) simp_all
  then show ?thesis using c'(1) by (simp add: m del: tac_handle.simps)
qed

lemma net_step:
  assumes "jsonc_ok jc" and "net_inv jc n" and "net_admissible jc n e"
  shows "\<exists>n'. net_handle jc e n = Inr n' \<and> net_inv jc n'"
  using assms server_event_step server_receive_step client_event_step client_receive_step by (cases e) blast+

end
