(* ===== verification/Network_Safety.thy ===== *)
theory Network_Safety
  imports Network
begin

text \<open>
  The network as an instance of \<open>reactive\<close>, its start, what it means to hold a table, and the
  steps of an undisturbed exchange between a client and the server. The properties of the whole
  system, in the root theory, follow from these.
\<close>

interpretation network: reactive "net_handle jc" "net_admissible jc" "\<lambda>n. jsonc_ok jc \<and> net_inv jc n" for jc
  using net_step by unfold_locales blast

text \<open>
  The start: a server in a safe state, whose leases end within its time-out, and clients that
  differ in interface, address or family, are pointed at the server, and have no table, or one the
  database records for them (the server may have been restarted); no datagram is under way.
\<close>

definition net_start :: "net \<Rightarrow> bool" where
  "net_start n \<longleftrightarrow> srv_safe (net_server n) \<and> lease_bound (fst (net_server n)) (snd (net_server n))
     \<and> range_ok (snd (net_server n)) \<and> list_all tac_good (net_clients n) \<and> distinct (map tac_key (net_clients n))
     \<and> (\<forall>c \<in> set (net_clients n). backed (net_server n) c (ta_rt_table (tac_addr c)) (ta_lease_expires (tac_addr c))
          \<and> cstr (destination c) = server_name (net_server n) \<and> own_socket c \<noteq> server_name (net_server n))
     \<and> datagrams n = []"

lemma net_start_inv: "net_start n \<Longrightarrow> net_inv jc n"
  by (simp add: net_start_def net_inv_def)

lemma net_reached:
  assumes "jsonc_ok jc" and "net_start n" and "runs (net_handle jc) (net_admissible jc) n es n'"
  shows "net_inv jc n'"
  using network.reached [OF assms(3)] assms(1) net_start_inv [OF assms(2)] by blast

text \<open>Whether a client holds a table: it has one, has not given it up, and its lease has not ended.\<close>

definition holding :: "int \<Rightarrow> tac_ctx \<Rightarrow> bool" where
  "holding now c \<longleftrightarrow> \<not> closing c \<and> ta_rt_table (tac_addr c) \<noteq> 0 \<and> now < uint (ta_lease_expires (tac_addr c))"

lemma holding_row:
  assumes "net_inv jc n" and "c \<in> set (net_clients n)" and "holding (fst (net_server n)) c"
  obtains r where "r \<in> set (rt_rows (snd (net_server n)))" "client_of r = tac_key c"
    "row_tbl r = ta_rt_table (tac_addr c)" "uint (ta_lease_expires (tac_addr c)) \<le> LeaseExpires r"
proof -
  have "backed (net_server n) c (ta_rt_table (tac_addr c)) (ta_lease_expires (tac_addr c))"
    using assms(1,2) by (simp add: net_inv_def)
  with assms(3) that show thesis by (auto simp: backed_def holding_def)
qed

section \<open>An undisturbed exchange\<close>

text \<open>The client asks: one datagram leaves it.\<close>

lemma client_asks:
  assumes "tac_safe c" and "se_timer env = 0" and "\<And>k. se_alloc env k"
    and "ta_rt_table (tac_addr c) = 0" and "num_failed c + 1 < 5"
  shows "tac_handle jc (Request_timer env) c =
    Inr (cemit (request_effects jc env c TA_SHARED_CMD_REQ) (c\<lparr>num_failed := num_failed c + 1\<rparr>))"
  using request_timer_step [OF assms(1,2,4)] assms(3,5)
  by (simp add: resend_effects_def table_allocator_shared_json_create_req_def add_fields_all)

lemma sent_request_effects:
  "0 \<le> se_sendto env \<Longrightarrow> sent (request_effects jc env c cmd) = [(cstr (destination c), request_text jc c cmd)]"
  by (simp add: request_effects_def)

lemma receiving_request_effects:
  "0 \<le> se_sendto env \<Longrightarrow> 0 \<le> se_recv_start env \<Longrightarrow> receiving (es @ request_effects jc env c cmd)"
  by (simp add: request_effects_def client_recv_start_def receiving_append)

text \<open>The server grants: a table while one is free, recorded for the client.\<close>

lemma handler_grants:
  assumes "srv_wf ctx" and "family_served ctx (req_family rq)" and "all_ok now env"
    and "\<exists>k < unat (num_tables ctx). ctx_free ctx (req_family rq) k"
  shows "\<exists>t ctx'. table_allocator_server_clients_handle_req env ctx rq
    = Inr (Some (t, word_of_int (now + uint (table_timeout ctx))), ctx')"
  using assms(1)
proof (cases rule: handle_req_cases [where env = env and rq = rq])
  case (again now' r ctx1 ctx2 ok)
  then show ?thesis using assms(3) by (auto simp: all_ok_def update_ok)
next
  case (fresh now' i t ctx1 ctx2 ok)
  then show ?thesis using assms(3) by (auto simp: all_ok_def insert_ok)
qed (use assms in \<open>auto simp: all_ok_def\<close>)

lemma server_grants:
  assumes "jsonc_ok jc" and "req_strings address ifname tag" and "srv_safe (now, ctx)" and "range_ok ctx"
    and "data = flat_text (request_fields address ifname tag fam TA_SHARED_CMD_REQ)" and "length data < CLIENT_REQ_BUFFER_SIZE"
    and "all_ok now (rcv_req env)" and "\<And>k. rcv_alloc env k"
    and "family_served ctx fam" and "\<exists>k < unat (num_tables ctx). ctx_free ctx fam k"
  shows "\<exists>t ctx' reply. srv_handle jc (Datagram env data (Some sender)) (now, ctx) = Inr (now, ctx')
    \<and> trace ctx' = trace ctx @ [Sendto sender reply (rcv_sendto env)] \<and> t \<noteq> 0 \<and> t < 2 ^ 31
    \<and> reply = flat_text (response_fields t (word_of_int (now + uint (table_timeout ctx))))"
proof -
  let ?rq = "sent_req address ifname tag fam TA_SHARED_CMD_REQ"
  let ?c = "(receive_into data ctx)\<lparr>req := ?rq\<rparr>"
  have "srv_inv now ctx" using assms(3) by (simp add: srv_safe_def)
  then have "srv_inv now ?c" by (simp add: receive_into_def unix_socket_alloc_cb_def)
  then have wf: "srv_wf ?c" by (simp only: srv_inv_def)
  have io: "trace ?c = trace ctx" "num_tables ?c = num_tables ctx" "table_timeout ?c = table_timeout ctx"
    "ctx_free ?c = ctx_free ctx" "family_served ?c = family_served ctx" "range_ok ?c = range_ok ctx"
    by (simp_all add: receive_into_def unix_socket_alloc_cb_def ctx_free_def family_map_def
        range_ok_def capacity_def family_served_def fun_eq_iff)
  have fam: "req_family ?rq = fam" by (simp add: sent_req_def)
  obtain t c1 where h: "table_allocator_server_clients_handle_req (rcv_req env) ?c ?rq
      = Inr (Some (t, word_of_int (now + uint (table_timeout ctx))), c1)"
    using handler_grants [OF wf, of ?rq now "rcv_req env"] assms(7,9,10) io by (auto simp: fam)
  have t: "t \<noteq> 0" "table_id c1 t < capacity c1" using handle_req_grant [OF wf h] by blast+
  have q: "same_io ?c c1" "trace c1 = trace ?c" using handle_req_quiet [OF wf h] by (simp_all add: quiet_io_def)
  have "t < 2 ^ 31" using t(2) range_ok_io [OF q(1)] io(6) assms(4) by (intro table_bound) simp_all
  let ?reply = "flat_text (response_fields t (word_of_int (now + uint (table_timeout ctx))))"
  have "unix_socket_reply jc env c1 sender (Some (t, word_of_int (now + uint (table_timeout ctx)))) = Inr (emit [Sendto sender ?reply (rcv_sendto env)] c1)"
    using gen_response_text [OF assms(1,8), of "zero_buf TA_SHARED_MAX_JSON_LEN"]
    by (simp add: unix_socket_reply_def length_zero_buf flat_text_def)
  then have "srv_handle jc (Datagram env data (Some sender)) (now, ctx) = Inr (now, emit [Sendto sender ?reply (rcv_sendto env)] c1)"
    using request_received [OF assms(1,2) _ assms(5,6), of ctx env sender now] assms(3) h
    by (simp add: srv_safe_def Let_def del: srv_handle.simps)
  then show ?thesis using t(1) \<open>t < 2 ^ 31\<close> q(2) io(1) by auto
qed

text \<open>The client takes what it is granted.\<close>

lemma client_takes:
  assumes "jsonc_ok jc" and "tac_safe c" and "\<not> closing c" and "\<not> rules_added (tac_addr c)"
    and "t \<noteq> 0" and "t < 2 ^ 31" and "e < 2 ^ 31" and "re_daemon env = 0" and "rules_ok (re_rules env)"
  shows "\<exists>c'. tac_handle jc (Reply env (flat_text (response_fields t e)) (Some sender)) c = Inr c'
    \<and> \<not> closing c' \<and> ta_rt_table (tac_addr c') = t \<and> ta_lease_expires (tac_addr c') = e
    \<and> (\<exists>es. tac_trace c' = tac_trace c @ es \<and> Print_table t \<in> set es \<and>
         Rule_request ` set (lease_rules ((tac_addr c)\<lparr>ta_rt_table := t\<rparr>) RTM_NEWRULE) \<subseteq> set es)"
proof -
  let ?d = "(client_receive_into (flat_text (response_fields t e)) c)\<lparr>tac_addr := (tac_addr c)\<lparr>ta_lease_expires := e\<rparr>\<rparr>"
  have d: "rt_mnl_socket ?d" "tac_addr ?d = (tac_addr c)\<lparr>ta_lease_expires := e\<rparr>" "tac_trace ?d = tac_trace c" "closing ?d = closing c"
    using assms(2) by (simp_all add: client_receive_into_def client_socket_alloc_cb_def tac_safe_def)
  have same: "lease_rules ((tac_addr c)\<lparr>ta_lease_expires := e, ta_rt_table := t\<rparr>) RTM_NEWRULE
      = lease_rules ((tac_addr c)\<lparr>ta_rt_table := t\<rparr>) RTM_NEWRULE"
    by (simp add: lease_rules_def rule_message_def Let_def)
  have "Rule_request ` set (lease_rules ((tac_addr c)\<lparr>ta_rt_table := t\<rparr>) RTM_NEWRULE) \<subseteq> set (lease_effects env t ?d)"
    "Print_table t \<in> set (lease_effects env t ?d)"
    using assms(4) by (auto simp: lease_effects_def d(2) same)
  then show ?thesis
    unfolding reply_read [OF assms(1-3) refl assms(5-7)] accept_lease_eq [OF assms(8) d(1) assms(9)]
    using d assms(3) by auto
qed

text \<open>
  The exchange of client \<open>i\<close>: its timer fires, its request arrives, the reply to it arrives;
  \<open>undisturbed\<close> when both calls of \<open>sendto\<close> and the client's start of receiving succeed, and no
  allocation, no statement of sqlite and no rule message fails.
\<close>

definition exchange :: "nat \<Rightarrow> send_env \<Rightarrow> recv_env \<Rightarrow> reply_env \<Rightarrow> net \<Rightarrow> net_event list" where
  "exchange i senv renv cenv n = [Client_event i (Request_timer senv),
     Server_receive renv (length (datagrams n)), Client_receive i cenv (Suc (length (datagrams n)))]"

definition undisturbed :: "int \<Rightarrow> send_env \<Rightarrow> recv_env \<Rightarrow> reply_env \<Rightarrow> bool" where
  "undisturbed now senv renv cenv \<longleftrightarrow> se_timer senv = 0 \<and> (\<forall>k. se_alloc senv k) \<and> 0 \<le> se_sendto senv
     \<and> 0 \<le> se_recv_start senv \<and> all_ok now (rcv_req renv) \<and> (\<forall>k. rcv_alloc renv k) \<and> 0 \<le> rcv_sendto renv \<and> re_daemon cenv = 0 \<and> rules_ok (re_rules cenv)"

text \<open>A client that waits for its first lease and will still ask.\<close>

definition asking :: "tac_ctx \<Rightarrow> bool" where
  "asking c \<longleftrightarrow> \<not> closing c \<and> ta_rt_table (tac_addr c) = 0 \<and> \<not> rules_added (tac_addr c) \<and> num_failed c + 1 < 5"

text \<open>The three steps of an exchange as a run.\<close>

lemma exchange_runs:
  assumes "i < length (net_clients n)" and "net_server n = (now, ctx)" and "undisturbed now senv renv cenv"
    and "tac_handle jc (Request_timer senv) (net_clients n ! i) = Inr c1"
    and "tac_trace c1 = tac_trace (net_clients n ! i) @ ds" and "sent ds = [(server_name (now, ctx), data)]"
    and "receiving (trace ctx)" and "receiving (tac_trace c1)"
    and "srv_handle jc (Datagram renv data (Some (own_socket c1))) (now, ctx) = Inr (now, ctx')"
    and "trace ctx' = trace ctx @ [Sendto (own_socket c1) reply (rcv_sendto renv)]"
    and "tac_handle jc (Reply cenv reply (Some (server_name (now, ctx')))) c1 = Inr c2"
  shows "\<exists>m. runs (net_handle jc) (net_delivers jc) n (exchange i senv renv cenv n) m
    \<and> net_server m = (now, ctx') \<and> length (net_clients m) = length (net_clients n) \<and> net_clients m ! i = c2"
proof -
  note env = assms(3) [unfolded undisturbed_def]
  define n1 where "n1 = client_moves n i c1"
  define n2 where "n2 = server_moves n1 (now, ctx')"
  define n3 where "n3 = client_moves n2 i c2"
  have n1: "datagrams n1 = datagrams n @ [(own_socket c1, server_name (now, ctx), data)]" "net_server n1 = (now, ctx)"
    "net_clients n1 = (net_clients n)[i := c1]"
    using assms(2,5,6) by (simp_all add: n1_def client_moves_def)
  have n2: "datagrams n2 = datagrams n1 @ [(server_name (now, ctx'), own_socket c1, reply)]" "net_server n2 = (now, ctx')"
    "net_clients n2 = net_clients n1"
    using n1(2) assms(10) env by (simp_all add: n2_def server_moves_def)
  have n3: "net_server n3 = (now, ctx')" "net_clients n3 = (net_clients n)[i := c2]"
    using n1(3) n2 by (simp_all add: n3_def client_moves_def)
  have "net_handle jc (Client_event i (Request_timer senv)) n = Inr n1"
    "net_delivers jc n (Client_event i (Request_timer senv))"
    using assms(1,4) env by (simp_all add: n1_def net_delivers_def del: tac_handle.simps)
  then have step1: "runs (net_handle jc) (net_delivers jc) n ([] @ [Client_event i (Request_timer senv)]) n1"
    using runs.start by (intro runs.event)
  have "net_handle jc (Server_receive renv (length (datagrams n))) n1 = Inr n2"
    "net_delivers jc n1 (Server_receive renv (length (datagrams n)))"
    using assms(7,9) env n1 by (simp_all add: n2_def net_delivers_def addressed_def all_ok_def del: srv_handle.simps)
  note step2 = runs.event [OF step1 this(2,1)]
  have "net_handle jc (Client_receive i cenv (Suc (length (datagrams n)))) n2 = Inr n3"
    "net_delivers jc n2 (Client_receive i cenv (Suc (length (datagrams n))))"
    using assms(1,8,11) env n1 n2 by (simp_all add: n3_def net_delivers_def addressed_def nth_append del: tac_handle.simps)
  note step3 = runs.event [OF step2 this(2,1)]
  then have "runs (net_handle jc) (net_delivers jc) n (exchange i senv renv cenv n) n3"
    by (simp only: exchange_def append_assoc append_Cons append_Nil)
  with n3 show ?thesis using assms(1) by auto
qed

end
