(* ===== verification/Spec2Isabelle.thy ===== *)
theory Spec2Isabelle
  imports Server_Config Server_Leaks Client_Limits Network_Safety
begin

text \<open>
  The table allocator of multihomed-routing (\<^verbatim>\<open>src/table_allocator\<close>). A host with several
  network interfaces keeps one routing table per address. The server hands out the numbers of
  these tables: a client, run for one address of one interface, asks for a table over a datagram
  socket, is granted one with an end of the lease, directs packets of its address to that table by
  three routing rules, and renews the lease until its address or its interface goes.

  \<^bold>\<open>The parts and their theories.\<close>

  \<^item> Prelude, Effects, Runs: machine integers as words, the ways a C function stops the process
    (\<open>halt\<close>: a null pointer, an access out of bounds, a use after free, \<open>exit\<close>) as the left side of a
    sum, C strings in fixed buffers, the system and library calls of the
    programs as a trace of effects, and event-driven programs (\<open>runs\<close>, interface \<open>reactive\<close>).
  \<^item> Server\_State, Table\_Map, Lease\_Db, Server\_Clients: the server's state (\<open>tas_ctx\<close>, from
    \<^verbatim>\<open>table_allocator_server.h\<close>), the bit map of free tables
    (\<^verbatim>\<open>table_allocator_server_clients.c\<close>, \<^verbatim>\<open>table_allocator_server.c\<close>), the database of leases
    (\<^verbatim>\<open>table_allocator_server_sqlite.c\<close>, its statements from the header), and the handlers of
    requests, releases and the sweep over both (\<^verbatim>\<open>table_allocator_server_clients.c\<close>).
  \<^item> Json\_Messages, Socket\_Helpers: the messages (\<^verbatim>\<open>table_allocator_shared_json.c\<close>), and the
    sockets in the abstract name space with their handles
    (\<^verbatim>\<open>table_allocator_shared_socket_helpers.c\<close>, \<^verbatim>\<open>table_allocator_shared_libuv_helpers.c\<close>).
  \<^item> Server\_Sockets, Server\_Config: the server's callbacks (\<^verbatim>\<open>table_allocator_server_sockets.c\<close>)
    as the event-driven program \<open>srv_handle\<close>, and its configuration and start
    (\<^verbatim>\<open>table_allocator_server.c\<close>).
  \<^item> Client\_Rules, Client, Client\_Start: the client's rules and netlink messages
    (\<^verbatim>\<open>table_allocator_client_netlink.c\<close>), its callbacks as the event-driven program
    \<open>tac_handle\<close>, and its command line and start (\<^verbatim>\<open>table_allocator_client.c\<close>).
  \<^item> Server\_Leases, Client\_Leases: what each of the two promises on its own.
  \<^item> Server\_Leaks, Client\_Limits: what they do not do: tables the running server loses, and the
    options of the client that have no effect or lead to a fault.
  \<^item> Network\_Server, Network\_Client, Network, Network\_Safety: the server and any number of clients
    with the datagrams between them as one event-driven program (\<open>net_handle\<close>).

  A definition has the name of the C function it translates; where the client and the server have
  a function of the same name, the client's starts with \<open>client_\<close>. A definition that translates
  part of a function (the body of a loop, one message of a sequence) says so in its map entry.

  \<^bold>\<open>How the code corresponds to the model.\<close> A callback takes the context and returns it updated, or the
  \<open>halt\<close> it runs into. What it asks of libuv, libmnl, sockets and standard output is appended to
  the trace of the context; what they, the clock and sqlite answer are arguments, so the theorems hold for
  every answer. sqlite executes its statements on a list of rows in scan order, and a statement that fails
  changes nothing. json-c is a record of functions (\<open>jsonc\<close>); theorems that need to know what it parses
  and prints assume \<open>jsonc_ok\<close>, its documented behaviour on flat objects, which \<open>ref_json\<close>
  shows to be possible. A datagram is written over the receive buffer, which the server does not clear.

  \<^bold>\<open>What the lemmas show.\<close>

  \<^item> Table\_Map: each operation on the words is the operation on the set of free tables, and so is any
    sequence of them (\<open>id_pool\<close>, interpreted as \<open>table_pool\<close>); allocation takes the least free
    table of the range.
  \<^item> Lease\_Db: the rows are a map from clients to tables with an end for each (\<open>lease_store\<close> and
    \<open>expiring_store\<close>, interpreted as \<open>rows\<close>).
  \<^item> Server\_Clients, Server\_Leases: the handlers never stop the server and keep \<open>srv_inv\<close> (a live
    lease has its bit taken, no table has two rows) whatever fails; when nothing fails they refine
    the abstract allocation on the map of leases.
  \<^item> Json\_Messages: round trips of requests and replies, and memory safety of parsing.
  \<^item> Server\_Sockets, Client\_Leases: neither program stops on the events it is made for (\<open>server\<close> and
    \<open>client\<close>, interpretations of \<open>reactive\<close>); retransmission, renewal and end of a lease.
  \<^item> Server\_Config, Client\_Start: what a configuration and a command line that are accepted amount to, and
    that a start leads to a safe state.
  \<^item> Network: the invariant \<open>net_inv\<close> of the system: a lease that a client holds, or that is on its
    way to it, is recorded in the database until its end, unless the client is closing. It rests on
    what one event does to the rows (Network\_Server) and to the client (Network\_Client). A datagram
    exists once \<open>sendto\<close> has not failed. Safety (\<open>net_admissible\<close>) is shown for datagrams that arrive
    at any time, which includes all that really happens; progress (\<open>net_delivers\<close>) only
    for those that arrive at a process that has started to receive.
  \<^item> Server\_Leaks: a table that is taken and recorded for nobody stays so while the server runs.
  \<^item> Client\_Limits: what the client does with and without the release option, by a simulation over its
    start and its events, and what becomes of a client of another family than IPv4.

  \<^bold>\<open>Bounds.\<close> Times are seconds below \<open>2^31 - 2^16\<close> (\<open>clock_ok\<close>), so that a lease of a 16-bit time-out ends in the
  range of \<open>int32_t\<close>; table numbers below \<open>2^31\<close> (\<open>range_ok\<close>) arrive at the client as they were sent. The only
  loop that is not structural, the scan of the words, is total. No definition of the code has fuel; the
  example parser \<open>ref_json\<close> has the length of its input as fuel, which is enough because each member
  takes a character.

  \<^bold>\<open>The environment.\<close> Admissible events (\<open>srv_admissible\<close>, \<open>tac_admissible\<close>, \<open>net_admissible\<close>) are what libuv and
  the kernel deliver: datagrams of bound sockets, timers that can be started, a monotonic clock the server
  reads. What happens outside these bounds is stated as well: the datagrams and the
  database rows that stop the server, clients of the families the code does not set up, and replies that come late.

  \<^bold>\<open>Not modelled.\<close> Logging and the usage text (output only; where a call of the log reads through a pointer that
  may be null or unterminated, the model halts); the callback that hands out the netlink buffer (the messages of one
  read are an argument); libuv, libmnl, json-c, sqlite and the kernel, which are parameters; in the
  clean-up of the client, what \<open>uv_close\<close> does with a handle that was never initialised or is closing
  already, the last turn of the loop and the release of the memory after the netlink socket is closed;
  the shell scripts, which call \<^verbatim>\<open>ip\<close> and the client; build and packaging files.
\<close>

section \<open>Properties\<close>

text \<open>C1: whatever the clocks, sqlite, the sockets and the netlink sockets answer, and whichever
  datagrams are lost, repeated or overtaken, two clients of the system never hold the same table at
  the same time; and a table that a client holds is recorded for it in the server's database and
  taken in its table map.\<close>

theorem tables_exclusive:
  assumes "jsonc_ok jc" and "net_start n" and "runs (net_handle jc) (net_admissible jc) n es n'"
    and "i < length (net_clients n')" and "holding (fst (net_server n')) (net_clients n' ! i)"
  shows "(\<forall>j < length (net_clients n'). i \<noteq> j \<and> holding (fst (net_server n')) (net_clients n' ! j) \<longrightarrow>
      ta_rt_table (tac_addr (net_clients n' ! i)) \<noteq> ta_rt_table (tac_addr (net_clients n' ! j)))
    \<and> \<not> ctx_free (snd (net_server n')) AF_INET (table_id (snd (net_server n')) (ta_rt_table (tac_addr (net_clients n' ! i))))
    \<and> (\<exists>r \<in> set (rt_rows (snd (net_server n'))). client_of r = tac_key (net_clients n' ! i)
         \<and> row_tbl r = ta_rt_table (tac_addr (net_clients n' ! i)))"
proof (intro conjI allI impI)
  let ?s = "snd (net_server n')" and ?now = "fst (net_server n')"
  have inv: "net_inv jc n'" using assms(1-3) by (rule net_reached)
  then have wf: "srv_wf ?s" "live_taken ?now ?s" and keys: "distinct (map tac_key (net_clients n'))"
    by (auto simp: net_inv_def srv_safe_def srv_inv_def)
  have family: "fst (tac_key c) = uint AF_INET" if "c \<in> set (net_clients n')" for c
    using inv that by (auto simp: net_inv_def list_all_iff tac_good_def tac_safe_def tac_key_def)
  have fam: "row_fam r = AF_INET" if "client_of r = tac_key c" "c \<in> set (net_clients n')" for r c
    using family [OF that(2)] that(1) by (simp add: client_of_def row_fam_def tac_key_def)
  obtain r where r: "r \<in> set (rt_rows ?s)" "client_of r = tac_key (net_clients n' ! i)"
    "row_tbl r = ta_rt_table (tac_addr (net_clients n' ! i))"
    "uint (ta_lease_expires (tac_addr (net_clients n' ! i))) \<le> LeaseExpires r"
    using inv nth_mem [OF assms(4)] assms(5) by (rule holding_row)
  then show "\<exists>r \<in> set (rt_rows ?s). client_of r = tac_key (net_clients n' ! i)
      \<and> row_tbl r = ta_rt_table (tac_addr (net_clients n' ! i))" by blast
  have "?now < LeaseExpires r" using r(4) assms(5) by (simp add: holding_def)
  with wf(2) r(1,3) fam [OF r(2) nth_mem [OF assms(4)]]
  show "\<not> ctx_free ?s AF_INET (table_id ?s (ta_rt_table (tac_addr (net_clients n' ! i))))"
    by (auto simp: live_taken_def row_id_def)
  fix j assume j: "j < length (net_clients n')" "i \<noteq> j \<and> holding ?now (net_clients n' ! j)"
  then obtain q where q: "q \<in> set (rt_rows ?s)" "client_of q = tac_key (net_clients n' ! j)"
    "row_tbl q = ta_rt_table (tac_addr (net_clients n' ! j))"
    using holding_row [OF inv nth_mem [OF j(1)]] by blast
  show "ta_rt_table (tac_addr (net_clients n' ! i)) \<noteq> ta_rt_table (tac_addr (net_clients n' ! j))"
  proof
    assume "ta_rt_table (tac_addr (net_clients n' ! i)) = ta_rt_table (tac_addr (net_clients n' ! j))"
    then have "r = q"
      using r(3) q(3) fam [OF r(2) nth_mem [OF assms(4)]] fam [OF q(2) nth_mem [OF j(1)]]
      by (intro row_eqI [OF wf(1) r(1) q(1)]) (simp_all add: row_id_def)
    then have "map tac_key (net_clients n') ! i = map tac_key (net_clients n') ! j"
      using r(2) q(2) assms(4) j(1) by simp
    with keys assms(4) j show False by (simp add: distinct_conv_nth)
  qed
qed

text \<open>C2: the system never stops: in every state it reaches from a start, the server and every
  client are in a safe state, and every admissible event of the server, of a client or of the
  network is handled and leads to such a state again.\<close>

theorem network_never_stops:
  assumes "jsonc_ok jc" and "net_start n" and "runs (net_handle jc) (net_admissible jc) n es n'"
  shows "srv_safe (net_server n') \<and> list_all tac_safe (net_clients n')
    \<and> (\<forall>e. net_admissible jc n' e \<longrightarrow> (\<exists>m. runs (net_handle jc) (net_admissible jc) n (es @ [e]) m
          \<and> srv_safe (net_server m) \<and> list_all tac_safe (net_clients m)))"
proof -
  have safe: "srv_safe (net_server m) \<and> list_all tac_safe (net_clients m)" if "net_inv jc m" for m
    using that by (auto simp: net_inv_def list_all_iff tac_good_def)
  have start: "jsonc_ok jc \<and> net_inv jc n" using assms(1) net_start_inv [OF assms(2)] by blast
  show ?thesis
    using safe network.reached [OF assms(3) start] network.not_stuck [OF assms(3) start] by blast
qed

text \<open>C3: an undisturbed exchange serves a client, in whatever state of the system it happens: a
  client that waits for its first lease, while the server is receiving, serves its family and has a
  table free, holds a table after its timer, its request and the reply, with an end one time-out away,
  and prints the table and sends its three rules for it. The request and the reply are datagrams that
  left their sender, and each arrives at a process that has started to receive.\<close>

theorem request_obtains_lease:
  assumes "jsonc_ok jc" and "net_start n" and "runs (net_handle jc) (net_admissible jc) n es n'"
    and "net_server n' = (now, ctx)" and "i < length (net_clients n')" and "asking (net_clients n' ! i)"
    and "family_map ctx AF_INET \<noteq> None" and "k < unat (num_tables ctx)" and "ctx_free ctx AF_INET k"
    and "receiving (trace ctx)" and "undisturbed now senv renv cenv"
  shows "\<exists>m t es' ctx'. runs (net_handle jc) (net_delivers jc) n' (exchange i senv renv cenv n') m
    \<and> net_server m = (now, ctx') \<and> length (net_clients m) = length (net_clients n')
    \<and> t \<noteq> 0 \<and> \<not> closing (net_clients m ! i) \<and> ta_rt_table (tac_addr (net_clients m ! i)) = t
    \<and> uint (ta_lease_expires (tac_addr (net_clients m ! i))) = now + uint (table_timeout ctx)
    \<and> tac_trace (net_clients m ! i) = tac_trace (net_clients n' ! i) @ es' \<and> Print_table t \<in> set es'
    \<and> Rule_request ` set (lease_rules ((tac_addr (net_clients n' ! i))\<lparr>ta_rt_table := t\<rparr>) RTM_NEWRULE) \<subseteq> set es'"
proof -
  let ?c = "net_clients n' ! i" and ?e = "word_of_int (now + uint (table_timeout ctx)) :: u32"
  let ?ds = "request_effects jc senv ?c TA_SHARED_CMD_REQ" and ?txt = "request_text jc ?c TA_SHARED_CMD_REQ"
  let ?c1 = "cemit ?ds (?c\<lparr>num_failed := num_failed ?c + 1\<rparr>)"
  have inv: "net_inv jc n'" using assms(1-3) by (rule net_reached)
  then have good: "tac_good ?c" and srv: "srv_safe (now, ctx)" "range_ok ctx" "clock_ok now"
    using assms(4,5) by (auto simp: net_inv_def list_all_length srv_safe_def)
  then have safe: "tac_safe ?c" "ta_family (tac_addr ?c) = AF_INET" by (simp_all add: tac_good_def tac_safe_def)
  note env = assms(11) [unfolded undisturbed_def]
  have ask: "tac_handle jc (Request_timer senv) ?c = Inr ?c1"
    using client_asks [OF safe(1)] assms(6) env by (simp add: asking_def del: tac_handle.simps)
  have sent: "tac_trace ?c1 = tac_trace ?c @ ?ds" "sent ?ds = [(server_name (now, ctx), ?txt)]" "receiving (tac_trace ?c1)"
    using client_inv(4) [OF inv assms(5)] env
    by (simp_all add: assms(4) sent_request_effects receiving_request_effects)
  have body: "?txt = flat_text (request_fields (cstr (ta_address_str (tac_addr ?c))) (cstr (ta_ifname (tac_addr ?c)))
      (cstr (ta_tag (tac_addr ?c))) AF_INET TA_SHARED_CMD_REQ)"
    using request_text_flat [OF assms(1) good] safe(2) by simp
  have req: "req_strings (cstr (ta_address_str (tac_addr ?c))) (cstr (ta_ifname (tac_addr ?c))) (cstr (ta_tag (tac_addr ?c)))"
    using good by (simp add: tac_good_def)
  have len: "length ?txt < CLIENT_REQ_BUFFER_SIZE" unfolding body by (rule request_text_fits [OF req])
  have served: "family_served ctx AF_INET" "\<exists>k < unat (num_tables ctx). ctx_free ctx AF_INET k"
    using assms(7-9) by (auto simp: family_served_iff valid_family_def)
  obtain t ctx' reply where grant: "srv_handle jc (Datagram renv ?txt (Some (own_socket ?c1))) (now, ctx) = Inr (now, ctx')"
    "trace ctx' = trace ctx @ [Sendto (own_socket ?c1) reply (rcv_sendto renv)]" "t \<noteq> 0" "t < 2 ^ 31" "reply = flat_text (response_fields t ?e)"
    using server_grants [OF assms(1) req srv(1,2) body len _ _ served, of renv "own_socket ?c1"] env by blast
  have "tac_safe ?c1" "\<not> closing ?c1" "\<not> rules_added (tac_addr ?c1)" "ta_rt_table (tac_addr ?c1) = 0"
    using safe(1) assms(6) by (simp_all add: asking_def tac_safe_def)
  then obtain c2 es2 where take: "tac_handle jc (Reply cenv reply (Some (server_name (now, ctx')))) ?c1 = Inr c2"
    "\<not> closing c2" "ta_rt_table (tac_addr c2) = t" "ta_lease_expires (tac_addr c2) = ?e" "tac_trace c2 = tac_trace ?c1 @ es2"
    "Print_table t \<in> set es2" "Rule_request ` set (lease_rules ((tac_addr ?c1)\<lparr>ta_rt_table := t\<rparr>) RTM_NEWRULE) \<subseteq> set es2"
    unfolding grant(5) using client_takes [OF assms(1) _ _ _ grant(3,4) granted_end(4) [OF srv(3)]] env by blast
  obtain m where m: "runs (net_handle jc) (net_delivers jc) n' (exchange i senv renv cenv n') m"
    "net_server m = (now, ctx')" "length (net_clients m) = length (net_clients n')" "net_clients m ! i = c2"
    using exchange_runs [OF assms(5,4,11) ask sent(1,2) assms(10) sent(3) grant(1,2) take(1)] by blast
  have c2: "tac_trace c2 = tac_trace ?c @ (?ds @ es2)" "Print_table t \<in> set (?ds @ es2)"
    "Rule_request ` set (lease_rules ((tac_addr ?c)\<lparr>ta_rt_table := t\<rparr>) RTM_NEWRULE) \<subseteq> set (?ds @ es2)"
    using take(5-7) by auto
  show ?thesis
    by (rule exI [of _ m], rule exI [of _ t], rule exI [of _ "?ds @ es2"], rule exI [of _ ctx'])
      (simp only: m c2 take(2-4) grant(3) granted_end(2) [OF srv(3)] simp_thms)
qed

section \<open>Witnesses\<close>

text \<open>The server under the name the clients of the examples ask.\<close>

definition named :: "tas_ctx \<Rightarrow> tas_ctx" where
  "named ctx = ctx\<lparr>socket_path := ''tas_socket'' @ zero_buf 96\<rparr>"

lemma named_safe: "srv_safe (now, ctx) \<Longrightarrow> srv_safe (now, named ctx)"
  by (simp add: srv_safe_def named_def zero_buf_def)

lemma named_simps [simp]:
  "rt_rows (named ctx) = rt_rows ctx" "table_timeout (named ctx) = table_timeout ctx" "table_offset (named ctx) = table_offset ctx"
  "capacity (named ctx) = capacity ctx" "family_map (named ctx) = family_map ctx" "num_tables (named ctx) = num_tables ctx"
  "ctx_free (named ctx) = ctx_free ctx" "server_name (now, named ctx) = ''tas_socket''"
proof -
  show fm: "family_map (named ctx) = family_map ctx" by (simp add: named_def family_map_def fun_eq_iff)
  then show "ctx_free (named ctx) = ctx_free ctx" by (simp add: fun_eq_iff ctx_free_def)
  show "server_name (now, named ctx) = ''tas_socket''"
    by (simp add: server_name_def named_def cstr_padded del: append_Cons append_Nil)
qed (simp_all add: named_def capacity_def)

text \<open>Two clients with the two leases of \<open>two_leases\<close>, and the server that granted them.\<close>

definition shared_ctx :: tas_ctx where
  "shared_ctx = toggle_id (toggle_id (example_ctx\<lparr>rt_rows := two_leases\<rparr>) AF_INET 0) AF_INET 1"

definition eth1_tac :: tac_ctx where
  "eth1_tac = leased_tac\<lparr>tac_addr := leased_addr\<lparr>ta_lease_expires := 500\<rparr>\<rparr>"

definition wwan0_tac :: tac_ctx where
  "wwan0_tac = leased_tac\<lparr>tac_addr := leased_addr\<lparr>ta_lease_expires := 900, ta_rt_table := 10001,
     ta_addr4 := 0x0300000A, ta_ifname := ''wwan0'' @ zero_buf 11, ta_address_str := ''10.0.0.3'' @ zero_buf 38\<rparr>\<rparr>"

definition shared_net :: net where
  "shared_net = \<lparr>net_server = (100, named shared_ctx), net_clients = [eth1_tac, wwan0_tac], datagrams = []\<rparr>"

lemma shared_rows [simp]:
  "row_fam (row_of wwan0_req 10001 e) = AF_INET" "row_tbl (row_of wwan0_req 10001 e) = 10001"
  "table_id example_ctx 10001 = 1"
  by (simp_all add: row_fam_def row_tbl_def table_id_def)

lemma shared_inv: "srv_inv 100 shared_ctx"
proof -
  let ?c = "example_ctx\<lparr>rt_rows := two_leases\<rparr>"
  have c: "geometry ?c" "capacity ?c = 64" "family_map ?c = family_map example_ctx" "table_id ?c = table_id example_ctx" by simp_all
  have wf: "srv_wf ?c"
    by (simp add: srv_wf_def row_ok_def row_id_def primary_key_def valid_family_def two_leases_def)
  have "ctx_free example_ctx AF_INET i = (i < 64)" for i
    using example_free(1) [of i] by (simp add: freed_ctx_def)
  then show ?thesis
    using c wf by (simp add: shared_ctx_def srv_inv_def live_taken_def two_leases_def ctx_free_toggle row_id_def same_map_def)
qed

lemma shared_simps [simp]:
  "rt_rows shared_ctx = two_leases" "table_timeout shared_ctx = 3600" "table_offset shared_ctx = 10000"
  "capacity shared_ctx = 64" "client_req_buffer shared_ctx = zero_buf CLIENT_REQ_BUFFER_SIZE"
  "socket_path shared_ctx = zero_buf TA_SHARED_MAX_ADDR_SIZE"
  by (simp_all add: shared_ctx_def) (simp_all add: example_ctx_def calloc_ctx_def)

lemma shared_safe: "srv_safe (100, shared_ctx)"
  by (simp add: srv_safe_def shared_inv clock_ok_def terminated_zero_buf size_defs)
    (simp add: zero_buf_def)

lemma shared_strings [simp]:
  "cstr (ta_ifname leased_addr) = ''eth1''" "cstr (ta_address_str leased_addr) = ''10.0.0.2''" "cstr (ta_tag leased_addr) = []"
  "cstr (''wwan0'' @ zero_buf n) = ''wwan0''" "cstr (''10.0.0.3'' @ zero_buf n) = ''10.0.0.3''"
  by (simp_all add: leased_addr_def cstr_padded cstr_zero_buf del: append_Cons append_Nil)

lemma shared_clients: "tac_good eth1_tac" "tac_good wwan0_tac"
  "tac_key eth1_tac = client_key eth1_req" "tac_key wwan0_tac = client_key wwan0_req"
proof -
  show "tac_key eth1_tac = client_key eth1_req" "tac_key wwan0_tac = client_key wwan0_req"
    by (simp_all add: tac_key_def eth1_tac_def wwan0_tac_def AF_INET_def del: append_Cons append_Nil)
  have "tac_safe eth1_tac" "tac_safe wwan0_tac"
    by (simp_all add: tac_safe_def eth1_tac_def wwan0_tac_def leased_tac_def leased_addr_def
      terminated_def zero_buf_def size_defs nth_append)
  then show "tac_good eth1_tac" "tac_good wwan0_tac"
    by (simp_all add: tac_good_def req_strings_def eth1_tac_def wwan0_tac_def safe_char_def size_defs del: append_Cons append_Nil)
qed

lemma shared_tables [simp]:
  "ta_rt_table (tac_addr eth1_tac) = 10000" "ta_lease_expires (tac_addr eth1_tac) = 500" "\<not> closing eth1_tac"
  "ta_rt_table (tac_addr wwan0_tac) = 10001" "ta_lease_expires (tac_addr wwan0_tac) = 900" "\<not> closing wwan0_tac"
  by (simp_all add: eth1_tac_def wwan0_tac_def leased_tac_def)

lemma shared_names [simp]:
  "cstr (destination leased_tac) = ''tas_socket''"
  "own_socket eth1_tac = ''eth1-10.0.0.2-2''" "own_socket wwan0_tac = ''wwan0-10.0.0.3-2''"
proof -
  have name: "own_socket c = client_socket_name (fst (snd (tac_key c))) (snd (snd (tac_key c))) (ta_family (tac_addr c))" for c
    by (simp add: own_socket_def tac_key_def)
  have fam: "ta_family (tac_addr eth1_tac) = AF_INET" "ta_family (tac_addr wwan0_tac) = AF_INET"
    by (simp_all add: eth1_tac_def wwan0_tac_def)
  show "own_socket eth1_tac = ''eth1-10.0.0.2-2''" "own_socket wwan0_tac = ''wwan0-10.0.0.3-2''"
    unfolding name shared_clients eth1_key fam
    by (simp_all add: client_socket_name_def UNIX_SOCKET_ADDR_SIZE_def size_defs AF_INET_def dec.simps char_of_def bit_0)
  show "cstr (destination leased_tac) = ''tas_socket''"
    by (simp add: leased_tac_def cstr_padded del: append_Cons append_Nil)
qed

lemma shared_start: "net_start shared_net"
proof -
  have "destination eth1_tac = destination leased_tac" "destination wwan0_tac = destination leased_tac"
    by (simp_all add: eth1_tac_def wwan0_tac_def)
  then show ?thesis
    using named_safe [OF shared_safe] shared_clients
    by (simp add: net_start_def shared_net_def lease_bound_def range_ok_def backed_def two_leases_def c_int_def sint_u32_small)
qed

theorem tables_exclusive_witness:
  "holding 100 (net_clients shared_net ! 0) \<and> holding 100 (net_clients shared_net ! 1)
   \<and> ta_rt_table (tac_addr (net_clients shared_net ! 0)) \<noteq> ta_rt_table (tac_addr (net_clients shared_net ! 1))"
proof -
  have n: "net_clients shared_net = [eth1_tac, wwan0_tac]" "fst (net_server shared_net) = 100" by (simp_all add: shared_net_def)
  then have h: "holding (fst (net_server shared_net)) (net_clients shared_net ! 0)" "0 < length (net_clients shared_net)"
    "holding (fst (net_server shared_net)) (net_clients shared_net ! 1)" "1 < length (net_clients shared_net)"
    by (simp_all add: holding_def)
  with tables_exclusive [OF ref_json_ok shared_start runs.start h(2,1)] n(2) show ?thesis by (metis zero_neq_one)
qed

theorem network_never_stops_witness:
  "\<exists>m. runs (net_handle ref_json) (net_admissible ref_json) shared_net ([] @ [Client_event 1 (Request_timer ok_send)]) m
    \<and> srv_safe (net_server m) \<and> list_all tac_safe (net_clients m)"
proof -
  have "net_admissible ref_json shared_net (Client_event 1 (Request_timer ok_send))"
    by (simp add: shared_net_def ok_send_def)
  with network_never_stops [OF ref_json_ok shared_start runs.start] show ?thesis by blast
qed

text \<open>A client that waits for its first lease from the same server, whose socket is open.\<close>

definition open_ctx :: tas_ctx where
  "open_ctx = emit [Udp_open Unix_socket 5, Udp_recv_start Unix_socket] (named leased_ctx)"

definition asking_net :: net where
  "asking_net = \<lparr>net_server = (100, open_ctx), net_clients = [waiting_tac], datagrams = []\<rparr>"

lemma open_simps [simp]:
  "rt_rows open_ctx = rt_rows leased_ctx" "table_timeout open_ctx = table_timeout leased_ctx"
  "num_tables open_ctx = num_tables leased_ctx" "family_map open_ctx = family_map leased_ctx"
  "ctx_free open_ctx = ctx_free leased_ctx" "capacity open_ctx = capacity leased_ctx"
  "table_offset open_ctx = table_offset leased_ctx" "server_name (100, open_ctx) = ''tas_socket''"
proof -
  have "server_name (100, open_ctx) = server_name (100, named leased_ctx)" by (simp add: server_name_def open_ctx_def)
  then show "server_name (100, open_ctx) = ''tas_socket''" by simp
qed (simp_all add: open_ctx_def)

lemma open_safe: "srv_safe (100, open_ctx)" "receiving (trace open_ctx)"
proof -
  show "srv_safe (100, open_ctx)" using named_safe [OF leased_safe] by (simp add: srv_safe_def open_ctx_def)
  show "receiving (trace open_ctx)" by (simp add: open_ctx_def receiving_append)
qed

lemma waiting_good: "tac_good waiting_tac"
  by (simp add: tac_good_def leased_tac_safe)
    (simp add: waiting_tac_def req_strings_def safe_char_def size_defs)

lemma asking_start: "net_start asking_net"
proof -
  have "tac_key waiting_tac = tac_key eth1_tac" "ta_family (tac_addr waiting_tac) = ta_family (tac_addr eth1_tac)"
    by (simp_all add: tac_key_def waiting_tac_def eth1_tac_def)
  then have "own_socket waiting_tac = own_socket eth1_tac" by (simp add: own_socket_def tac_key_def)
  moreover have "destination waiting_tac = destination leased_tac" by (simp add: waiting_tac_def)
  moreover have "capacity leased_ctx = 64" "table_offset leased_ctx = 10000"
    by (simp_all add: leased_ctx_def) (simp add: freed_ctx_def)
  ultimately show ?thesis
    using open_safe(1) waiting_good leased_facts
    by (simp add: net_start_def asking_net_def lease_bound_def range_ok_def backed_def c_int_def sint_u32_small)
qed

theorem request_obtains_lease_witness:
  "\<exists>renv m t. runs (net_handle ref_json) (net_delivers ref_json) asking_net (exchange 0 ok_send renv (ok_reply 100) asking_net) m
    \<and> t \<noteq> 0 \<and> ta_rt_table (tac_addr (net_clients m ! 0)) = t \<and> uint (ta_lease_expires (tac_addr (net_clients m ! 0))) = 3700"
proof -
  let ?renv = "\<lparr>rcv_req = ok_env 100, rcv_sel = sql_ok, rcv_del = sql_ok, rcv_alloc = (\<lambda>n. True), rcv_sendto = 90, rcv_closing = False\<rparr>"
  have n: "net_server asking_net = (100, open_ctx)" "0 < length (net_clients asking_net)" "net_clients asking_net ! 0 = waiting_tac"
    by (simp_all add: asking_net_def)
  have "asking (net_clients asking_net ! 0)" by (simp add: n asking_def) (simp add: waiting_tac_def)
  moreover have "family_map open_ctx AF_INET \<noteq> None" "1 < unat (num_tables open_ctx)" "ctx_free open_ctx AF_INET 1"
    by (simp_all add: leased_ctx_def ctx_free_toggle same_map_def)
  moreover have "undisturbed 100 ok_send ?renv (ok_reply 100)"
    by (simp add: undisturbed_def ok_send_def all_ok_def ok_env_def ok_reply_def rules_ok_def)
  ultimately show ?thesis
    using request_obtains_lease [OF ref_json_ok asking_start runs.start n(1,2), of 1] open_safe(2) leased_facts(3) by fastforce
qed

end
